theory Spec2Isabelle
  imports Complex_Main
begin

section \<open>Before/After Pro: canvas compositing, GIF frame construction, exporters\<close>

text \<open>
  The development follows \<^verbatim>\<open>src/utils/imageProcessing.ts\<close> (side-by-side
  compositor, \<^verbatim>\<open>resizeImage\<close>), the GIF exporter (\<^verbatim>\<open>createSliderGif\<close>,
  \<^verbatim>\<open>renderSliderFrame\<close>), the camera utilities (\<^verbatim>\<open>captureFrame\<close>) and
  \<^verbatim>\<open>src/utils/exporters.ts\<close> (\<^verbatim>\<open>escapeHtml\<close>, \<^verbatim>\<open>exportHtmlSlider\<close>,
  \<^verbatim>\<open>initInlineSlider\<close>, \<^verbatim>\<open>initFullscreenSlider\<close>).

  Numbers. A JavaScript number is an IEEE double. The finite ones are modelled by the
  rationals they denote (\<^typ>\<open>rat\<close>). Image and canvas sizes are whole numbers far below
  \<open>2^53\<close>, where double arithmetic on them is exact. Where the source computes a size or a
  sweep position through a quotient that no double holds (the steps \<open>i / 14\<close> of the
  animation and their eased values, the scale \<open>maxW / srcW\<close> of the animated export, the
  ratio of \<^verbatim>\<open>resizeImage\<close>), every operation rounds its exact result to the nearest
  double (\<open>fl\<close> below). The geometry that is drawn inside a canvas
  (\<^verbatim>\<open>createSideBySide\<close>, \<^verbatim>\<open>renderSliderFrame\<close>) is taken exactly, products with
  decimal constants such as \<open>0.04\<close> included. \<^verbatim>\<open>Math.floor\<close> is \<^const>\<open>floor\<close>, and
  \<^verbatim>\<open>Math.round\<close> rounds halves upwards, \<open>\<lfloor>x + 1/2\<rfloor>\<close>. Where the source divides by
  a value that can be zero the non-finite results are kept as values of their own
  (\<open>jsnum\<close> below).

  Strings. A JavaScript string is a sequence of UTF-16 code units; it is modelled as a list
  of code units (\<^typ>\<open>nat list\<close>), and \<open>str\<close> turns an ASCII literal into one.
\<close>

subsection \<open>Rounding to doubles\<close>

text \<open>
  An arithmetic operation on doubles returns its exact result rounded to the nearest double,
  a tie going to the double whose significand is even. For a rational \<open>x\<close> other than
  zero, \<open>expo \<bar>x\<bar>\<close> is the exponent \<open>e\<close> with \<open>2^e \<le> \<bar>x\<bar> < 2^(e+1)\<close>. A significand has
  53 bits, so the doubles around \<open>x\<close> are the multiples of \<open>ulp x = 2^(e-52)\<close>, where the
  exponent does not go below \<open>-1022\<close> (below \<open>2^(-1022)\<close> the spacing stays
  \<open>2^(-1074)\<close>), and \<open>fl x\<close> is the multiple nearest to \<open>x\<close>. The exponent is not bounded
  above in \<open>fl\<close>: overflow is added by \<open>js_num\<close> below.
\<close>

function expo_hi :: "rat \<Rightarrow> int" where
  "expo_hi x = (if 2 \<le> x then expo_hi (x / 2) + 1 else 0)"
  by pat_completeness auto
termination
proof (relation "measure (\<lambda>x. nat \<lfloor>x\<rfloor>)")
  show "wf (measure (\<lambda>x::rat. nat \<lfloor>x\<rfloor>))"
    by simp
next
  fix x :: rat
  assume "2 \<le> x"
  then have "x / 2 \<le> x - 1"
    by simp
  then have "\<lfloor>x / 2\<rfloor> \<le> \<lfloor>x - 1\<rfloor>"
    by (rule floor_mono)
  moreover have "1 \<le> \<lfloor>x\<rfloor>"
    using \<open>2 \<le> x\<close> by (simp add: le_floor_iff)
  ultimately show "(x / 2, x) \<in> measure (\<lambda>x. nat \<lfloor>x\<rfloor>)"
    by simp
qed

declare expo_hi.simps [simp del]

function expo_lo :: "rat \<Rightarrow> int" where
  "expo_lo x = (if 0 < x \<and> x < 1 then expo_lo (x * 2) - 1 else 0)"
  by pat_completeness auto
termination
proof (relation "measure (\<lambda>x. nat \<lceil>1 / x\<rceil>)")
  show "wf (measure (\<lambda>x::rat. nat \<lceil>1 / x\<rceil>))"
    by simp
next
  fix x :: rat
  assume a: "0 < x \<and> x < 1"
  then have "1 < 1 / x"
    by simp
  then have c2: "2 \<le> \<lceil>1 / x\<rceil>"
    by (simp add: le_ceiling_iff)
  have "1 / x \<le> of_int \<lceil>1 / x\<rceil>"
    by (rule le_of_int_ceiling)
  then have "1 / (x * 2) \<le> of_int \<lceil>1 / x\<rceil> / 2"
    by simp
  also have "\<dots> \<le> of_int (\<lceil>1 / x\<rceil> - 1)"
    using c2 by simp
  finally have "\<lceil>1 / (x * 2)\<rceil> \<le> \<lceil>1 / x\<rceil> - 1"
    by (simp only: ceiling_le_iff)
  then have "nat \<lceil>1 / (x * 2)\<rceil> < nat \<lceil>1 / x\<rceil>"
    using c2 by linarith
  then show "(x * 2, x) \<in> measure (\<lambda>x. nat \<lceil>1 / x\<rceil>)"
    by simp
qed

declare expo_lo.simps [simp del]

definition expo :: "rat \<Rightarrow> int" where
  "expo x = (if 1 \<le> x then expo_hi x else expo_lo x)"

text \<open>The nearest whole number, a tie going to the even one.\<close>

definition round_even :: "rat \<Rightarrow> int" where
  "round_even y =
     (let f = \<lfloor>y\<rfloor>; r = y - of_int f
      in if r < 1 / 2 then f else if 1 / 2 < r then f + 1 else if even f then f else f + 1)"

definition emin :: int where
  "emin = - 1022"

definition ulp :: "rat \<Rightarrow> rat" where
  "ulp x = 2 powi (max (expo \<bar>x\<bar>) emin - 52)"

definition fl :: "rat \<Rightarrow> rat" where
  "fl x = of_int (round_even (x / ulp x)) * ulp x"

subsection \<open>JavaScript values\<close>

type_synonym js_string = "nat list"

definition str :: "string \<Rightarrow> js_string" where
  "str s = map of_char s"

text \<open>\<^verbatim>\<open>Math.round\<close>, \<^verbatim>\<open>Math.floor\<close> and \<^verbatim>\<open>Math.ceil\<close> on finite numbers.\<close>

definition Math_round :: "rat \<Rightarrow> int" where
  "Math_round x = \<lfloor>x + 1 / 2\<rfloor>"

definition Math_floor :: "rat \<Rightarrow> int" where
  "Math_floor x = \<lfloor>x\<rfloor>"

definition Math_ceil :: "rat \<Rightarrow> int" where
  "Math_ceil x = \<lceil>x\<rceil>"

text \<open>
  Numbers that may be non-finite. Dividing by zero gives \<open>Infinity\<close>, \<open>-Infinity\<close> or
  \<open>NaN\<close>; \<^verbatim>\<open>Math.min\<close> returns \<open>NaN\<close> when an argument is \<open>NaN\<close>;
  \<open>0 * Infinity\<close> is \<open>NaN\<close>. (Signed zeros are not distinguished.) \<open>js_num x\<close> is the
  double that an operation with the exact result \<open>x\<close> returns: the rounded result, or an
  infinity when rounding reaches \<open>2^1024\<close>.
\<close>

datatype jsnum = Num rat | PosInf | NegInf | NaN

definition js_num :: "rat \<Rightarrow> jsnum" where
  "js_num x =
     (let y = fl x
      in if 2 ^ 1024 \<le> y then PosInf else if y \<le> - (2 ^ 1024) then NegInf else Num y)"

fun js_div :: "rat \<Rightarrow> rat \<Rightarrow> jsnum" where
  "js_div a b =
     (if b = 0 then (if 0 < a then PosInf else if a < 0 then NegInf else NaN)
      else js_num (a / b))"

fun Math_min :: "jsnum \<Rightarrow> jsnum \<Rightarrow> jsnum" where
  "Math_min NaN y = NaN"
| "Math_min x NaN = NaN"
| "Math_min NegInf y = NegInf"
| "Math_min x NegInf = NegInf"
| "Math_min PosInf y = y"
| "Math_min x PosInf = x"
| "Math_min (Num a) (Num b) = Num (min a b)"

fun js_mul :: "rat \<Rightarrow> jsnum \<Rightarrow> jsnum" where
  "js_mul a (Num b) = js_num (a * b)"
| "js_mul a PosInf = (if 0 < a then PosInf else if a < 0 then NegInf else NaN)"
| "js_mul a NegInf = (if 0 < a then NegInf else if a < 0 then PosInf else NaN)"
| "js_mul a NaN = NaN"

fun js_round :: "jsnum \<Rightarrow> jsnum" where
  "js_round (Num x) = Num (of_int (Math_round x))"
| "js_round x = x"

text \<open>
  \<^verbatim>\<open>String.prototype.trim\<close> removes the ECMAScript white space and line terminator
  code units from both ends.
\<close>

definition is_white_space :: "nat \<Rightarrow> bool" where
  "is_white_space c \<longleftrightarrow>
     c \<in> {0x9, 0xA, 0xB, 0xC, 0xD, 0x20, 0xA0, 0x1680, 0x2028, 0x2029, 0x202F, 0x205F,
          0x3000, 0xFEFF} \<or> (0x2000 \<le> c \<and> c \<le> 0x200A)"

definition trim :: "js_string \<Rightarrow> js_string" where
  "trim s = rev (dropWhile is_white_space (rev (dropWhile is_white_space s)))"

text \<open>\<^verbatim>\<open>String.prototype.startsWith\<close>\<close>

definition startsWith :: "js_string \<Rightarrow> js_string \<Rightarrow> bool" where
  "startsWith s p \<longleftrightarrow> take (length p) s = p"

subsection \<open>Images, canvas drawing commands and the platform\<close>

text \<open>
  A decoded \<^verbatim>\<open>HTMLImageElement\<close>: its source and its pixel size. A live
  \<^verbatim>\<open>HTMLVideoElement\<close>: the size of its current frame.
\<close>

record image =
  src :: js_string
  width :: nat
  height :: nat

record video =
  videoWidth :: nat
  videoHeight :: nat

text \<open>\<^verbatim>\<open>ctx.font\<close>: weight, size in px, family list.\<close>

datatype font = Font bool int js_string

text \<open>
  The calls on a \<^verbatim>\<open>CanvasRenderingContext2D\<close> that the source makes, with their
  arguments. A canvas is its size and the calls made on its context, in order; what they
  paint is the platform's business. \<open>Arc x y r\<close> is the full circle
  \<^verbatim>\<open>arc(x, y, r, 0, Math.PI * 2)\<close>.
\<close>

datatype cmd =
    FillStyle js_string
  | FillRect rat rat rat rat
  | DrawImage image rat rat
  | DrawImageScaled image rat rat rat rat
  | DrawVideoScaled video rat rat rat rat
  | SetFont font
  | BeginPath
  | RoundRect rat rat rat rat rat
  | Rect rat rat rat rat
  | Arc rat rat rat
  | MoveTo rat rat
  | LineTo rat rat
  | ClosePath
  | Fill
  | Clip
  | Save
  | Restore
  | FillText js_string rat rat
  | TextAlign js_string
  | TextBaseline js_string
  | ShadowColor js_string
  | ShadowBlur rat

record canvas =
  canvas_width :: rat
  canvas_height :: rat
  calls :: "cmd list"

text \<open>
  \<^verbatim>\<open>canvas.toDataURL(type, quality)\<close>: a canvas without pixels gives the string
  \<^verbatim>\<open>"data:,"\<close>; otherwise the result is the encoding of the canvas, kept symbolic.
\<close>

datatype data_url = DataEmpty | Encoded js_string rat canvas

definition toDataURL :: "canvas \<Rightarrow> js_string \<Rightarrow> rat \<Rightarrow> data_url" where
  "toDataURL c type q =
     (if canvas_width c = 0 \<or> canvas_height c = 0 then DataEmpty else Encoded type q c)"

text \<open>Exceptions that leave a function.\<close>

datatype js_error = Error js_string | IndexSizeError

text \<open>
  What the browser and the \<^verbatim>\<open>gifenc\<close> library compute is not part of the repository
  and is taken as a parameter: the width of a text in a font, the formatted date
  (\<^verbatim>\<open>Intl.DateTimeFormat\<close>; a date is its time value), the RGBA bytes of a canvas
  (\<^verbatim>\<open>getImageData(0, 0, w, h).data\<close>), the colours that the quantizer of \<^verbatim>\<open>gifenc\<close>
  picks, and \<^verbatim>\<open>applyPalette\<close>.
\<close>

type_synonym palette = "nat list list"

record platform =
  measureText :: "font \<Rightarrow> js_string \<Rightarrow> rat"
  formatDate :: "int \<Rightarrow> js_string"
  getImageData :: "cmd list \<Rightarrow> nat \<Rightarrow> nat \<Rightarrow> nat list"
  quantizer :: "nat list \<Rightarrow> nat \<Rightarrow> palette"
  applyPalette :: "nat list \<Rightarrow> palette \<Rightarrow> nat list"

text \<open>
  Modelled from the spec: \<^verbatim>\<open>quantize\<close> of the \<^verbatim>\<open>gifenc\<close> package, which is not part
  of the repository. The specification has it derive from the samples one palette of at most
  the requested number of colours; which colours these are is left to the platform.
\<close>

definition quantize :: "platform \<Rightarrow> nat list \<Rightarrow> nat \<Rightarrow> palette" where
  "quantize P rgba maxColors = take maxColors (quantizer P rgba maxColors)"

subsection \<open>\<^verbatim>\<open>createSideBySide\<close>\<close>

text \<open>
  \<^verbatim>\<open>SideBySideOptions\<close>: every field is optional; \<open>None\<close> is an absent field (for the
  dates also \<^verbatim>\<open>null\<close>). The destructuring defaults are \<open>quality = 0.9\<close>,
  \<open>watermark = ''\<close>, \<open>showDates = true\<close>.
\<close>

record SideBySideOptions =
  quality :: "rat option"
  watermark :: "js_string option"
  beforeDate :: "int option"
  afterDate :: "int option"
  showDates :: "bool option"

text \<open>
  The function after both images have been decoded (\<^verbatim>\<open>await Promise.all\<close>; a failed
  decode rejects before any of this runs). The result is the canvas handed to
  \<^verbatim>\<open>toDataURL('image/jpeg', quality)\<close>.
\<close>

definition divider :: rat where
  "divider = 4"

definition watermarkH :: "js_string \<Rightarrow> rat \<Rightarrow> rat" where
  "watermarkH wm h =
     (if trim wm \<noteq> [] then max 36 (of_int (Math_floor (h * (4 / 100)))) else 0)"

definition bullet :: js_string where
  "bullet = str '' '' @ [0x2022] @ str '' ''"

definition createSideBySide_canvas ::
  "platform \<Rightarrow> image \<Rightarrow> image \<Rightarrow> SideBySideOptions \<Rightarrow> canvas" where
  "createSideBySide_canvas P beforeImg afterImg options =
     (let wm = (case watermark options of None \<Rightarrow> [] | Some s \<Rightarrow> s);
          showD = (case showDates options of None \<Rightarrow> True | Some b \<Rightarrow> b);
          w = of_nat (max (width beforeImg) (width afterImg));
          h = of_nat (max (height beforeImg) (height afterImg));
          wmH = watermarkH wm h;
          cw = w * 2 + divider;
          ch = h + wmH;
          bx = (w - of_nat (width beforeImg)) / 2;
          by = (h - of_nat (height beforeImg)) / 2;
          ax = w + divider + (w - of_nat (width afterImg)) / 2;
          ay = (h - of_nat (height afterImg)) / 2;
          fontSize = max 24 (Math_floor (h * (4 / 100)));
          fnt = Font True fontSize (str ''Arial, sans-serif'');
          padding = of_int fontSize * (4 / 10);
          labelH = of_int fontSize + padding * 2;
          beforeText = str ''BEFORE'' @
            (case beforeDate options of
               Some d \<Rightarrow> if showD then bullet @ formatDate P d else []
             | None \<Rightarrow> []);
          afterText = str ''AFTER'' @
            (case afterDate options of
               Some d \<Rightarrow> if showD then bullet @ formatDate P d else []
             | None \<Rightarrow> []);
          beforeLabelW = measureText P fnt beforeText + padding * 2;
          afterLabelW = measureText P fnt afterText + padding * 2;
          wmFontSize = max 16 (Math_floor (wmH * (55 / 100)))
      in \<lparr>canvas_width = cw, canvas_height = ch,
          calls =
            [FillStyle (str ''#111''), FillRect 0 0 cw ch,
             DrawImage beforeImg bx by,
             FillStyle (str ''#fff''), FillRect w 0 divider h,
             DrawImage afterImg ax ay,
             SetFont fnt,
             FillStyle (str ''rgba(0,0,0,0.7)''), BeginPath,
             RoundRect padding padding beforeLabelW labelH 6, Fill,
             FillStyle (str ''#fff''),
             FillText beforeText (padding * 2) (padding + of_int fontSize),
             FillStyle (str ''rgba(0,0,0,0.7)''), BeginPath,
             RoundRect (w + divider + padding) padding afterLabelW labelH 6, Fill,
             FillStyle (str ''#fff''),
             FillText afterText (w + divider + padding * 2) (padding + of_int fontSize)]
            @ (if trim wm \<noteq> [] then
                 [FillStyle (str ''rgba(0,0,0,0.85)''), FillRect 0 h cw wmH,
                  SetFont (Font False wmFontSize (str ''Arial, sans-serif'')),
                  FillStyle (str ''rgba(255,255,255,0.9)''),
                  TextAlign (str ''center''), TextBaseline (str ''middle''),
                  FillText (trim wm) (cw / 2) (h + wmH / 2),
                  TextAlign (str ''start''), TextBaseline (str ''alphabetic'')]
               else [])\<rparr>)"

definition createSideBySide ::
  "platform \<Rightarrow> image \<Rightarrow> image \<Rightarrow> SideBySideOptions \<Rightarrow> data_url" where
  "createSideBySide P beforeImg afterImg options =
     toDataURL (createSideBySide_canvas P beforeImg afterImg options) (str ''image/jpeg'')
       (case quality options of None \<Rightarrow> 9 / 10 | Some q \<Rightarrow> q)"

subsection \<open>\<^verbatim>\<open>resizeImage\<close>\<close>

text \<open>
  \<open>img\<close> is the decoded \<open>dataUrl\<close>. The early return hands back the argument itself;
  otherwise the image is drawn into a canvas of \<open>newW\<close> by \<open>newH\<close> and re-encoded.
  \<open>maxDimension\<close> is any number; both quotients may be non-finite. The quotients and the
  products are rounded (\<open>js_div\<close>, \<open>js_mul\<close>).
\<close>

datatype resized = Unchanged js_string | Resized jsnum jsnum rat

definition resize_ratio :: "image \<Rightarrow> rat \<Rightarrow> jsnum" where
  "resize_ratio img maxDimension =
     Math_min (js_div maxDimension (of_nat (width img)))
              (js_div maxDimension (of_nat (height img)))"

definition resizeImage :: "image \<Rightarrow> js_string \<Rightarrow> rat \<Rightarrow> rat \<Rightarrow> resized" where
  "resizeImage img dataUrl maxDimension q =
     (if of_nat (width img) \<le> maxDimension \<and> of_nat (height img) \<le> maxDimension
      then Unchanged dataUrl
      else
        let ratio = resize_ratio img maxDimension;
            newW = js_round (js_mul (of_nat (width img)) ratio);
            newH = js_round (js_mul (of_nat (height img)) ratio)
        in Resized newW newH q)"

subsection \<open>The animation frame sequence of \<^verbatim>\<open>createSliderGif\<close>\<close>

text \<open>
  \<^verbatim>\<open>interface Frame { pct: number; delay: number }\<close>: \<open>pct = 0\<close> is the full "after"
  picture, \<open>pct = 1\<close> the full "before" picture; \<open>delay\<close> is in milliseconds.
\<close>

record Frame =
  pct :: rat
  delay :: nat

definition slideCount :: nat where
  "slideCount = 14"

text \<open>
  \<^verbatim>\<open>Math.pow(x, 2)\<close>. ECMAScript leaves the precision of \<^verbatim>\<open>Math.pow\<close> to the
  implementation; the engines compute the square \<open>x * x\<close>, rounded once.
\<close>

definition Math_pow_2 :: "rat \<Rightarrow> rat" where
  "Math_pow_2 x = fl (x * x)"

text \<open>
  \<^verbatim>\<open>t < 0.5 ? 2 * t * t : 1 - Math.pow(-2 * t + 2, 2) / 2\<close>, every operation
  rounding its result.
\<close>

definition eased :: "rat \<Rightarrow> rat" where
  "eased t =
     (if t < 1 / 2 then fl (fl (2 * t) * t)
      else fl (1 - fl (Math_pow_2 (fl (fl (- 2 * t) + 2)) / 2)))"

text \<open>
  The two \<^verbatim>\<open>for (let i = 1; i < slideCount; i++)\<close> loops; each computes
  \<^verbatim>\<open>t = i / slideCount\<close> and pushes one frame per iteration onto \<open>frames\<close>.
\<close>

function ease_to_after :: "nat \<Rightarrow> Frame list \<Rightarrow> Frame list" where
  "ease_to_after i frames =
     (if i < slideCount
      then let t = fl (of_nat i / of_nat slideCount)
           in ease_to_after (i + 1) (frames @ [\<lparr>pct = fl (1 - eased t), delay = 80\<rparr>])
      else frames)"
  by pat_completeness auto
termination
  by (relation "measure (\<lambda>(i, frames). slideCount - i)") auto

function ease_to_before :: "nat \<Rightarrow> Frame list \<Rightarrow> Frame list" where
  "ease_to_before i frames =
     (if i < slideCount
      then let t = fl (of_nat i / of_nat slideCount)
           in ease_to_before (i + 1) (frames @ [\<lparr>pct = eased t, delay = 80\<rparr>])
      else frames)"
  by pat_completeness auto
termination
  by (relation "measure (\<lambda>(i, frames). slideCount - i)") auto

text \<open>
  \<^verbatim>\<open>const frames: Frame[] = []\<close>, the hold on "before", the sweep to "after", the hold
  on "after", and the sweep back.
\<close>

definition build_frames :: "Frame list" where
  "build_frames =
     (let frames = [];
          frames = frames @ [\<lparr>pct = 1, delay = 1000\<rparr>];
          frames = ease_to_after 1 frames;
          frames = frames @ [\<lparr>pct = 0, delay = 1000\<rparr>];
          frames = ease_to_before 1 frames
      in frames)"

subsection \<open>\<^verbatim>\<open>renderSliderFrame\<close>\<close>

text \<open>
  The calls that one frame adds to the context: the "after" picture over the whole frame,
  the "before" picture clipped to the left \<open>splitX\<close> pixels, the divider line and the
  round handle with its two arrows (skipped at the edges), and the two corner labels.
\<close>

definition renderSliderFrame ::
  "platform \<Rightarrow> image \<Rightarrow> image \<Rightarrow> rat \<Rightarrow> rat \<Rightarrow> rat \<Rightarrow> cmd list" where
  "renderSliderFrame P beforeImg afterImg w h p =
     (let splitX = of_int (Math_round (w * p));
          cy = h / 2;
          r = max 12 (of_int (Math_round (w * (4 / 100))));
          a = r * (35 / 100);
          fontSize = max 11 (Math_round (h * (35 / 1000)));
          pad = of_int (Math_round (of_int fontSize * (5 / 10)));
          fnt = Font True fontSize (str ''-apple-system, Arial, sans-serif'');
          lh = of_int fontSize + pad * (15 / 10);
          bt = str ''BEFORE'';
          bw = measureText P fnt bt + pad * 2;
          at' = str ''AFTER'';
          aw = measureText P fnt at' + pad * 2
      in [DrawImageScaled afterImg 0 0 w h]
         @ (if splitX > 0 then
              [Save, BeginPath, Rect 0 0 splitX h, Clip,
               DrawImageScaled beforeImg 0 0 w h, Restore]
            else [])
         @ (if splitX > 2 \<and> splitX < w - 2 then
              [Save, ShadowColor (str ''rgba(0,0,0,0.5)''), ShadowBlur 4,
               FillStyle (str ''#ffffff''), FillRect (splitX - 15 / 10) 0 3 h, Restore,
               Save, ShadowColor (str ''rgba(0,0,0,0.4)''), ShadowBlur 6,
               BeginPath, Arc splitX cy r, FillStyle (str ''#ffffff''), Fill, Restore,
               FillStyle (str ''#666666''),
               BeginPath, MoveTo (splitX - a * (18 / 10)) cy,
               LineTo (splitX - a * (4 / 10)) (cy - a),
               LineTo (splitX - a * (4 / 10)) (cy + a), ClosePath, Fill,
               BeginPath, MoveTo (splitX + a * (18 / 10)) cy,
               LineTo (splitX + a * (4 / 10)) (cy - a),
               LineTo (splitX + a * (4 / 10)) (cy + a), ClosePath, Fill]
            else [])
         @ [SetFont fnt,
            FillStyle (str ''rgba(0,0,0,0.6)''), BeginPath, RoundRect pad pad bw lh 4, Fill,
            FillStyle (str ''#ffffff''), TextAlign (str ''left''), TextBaseline (str ''middle''),
            FillText bt (pad + pad) (pad + lh / 2),
            FillStyle (str ''rgba(0,0,0,0.6)''), BeginPath,
            RoundRect (w - aw - pad) pad aw lh 4, Fill,
            FillStyle (str ''#ffffff''),
            FillText at' (w - aw - pad + pad) (pad + lh / 2)])"


subsection \<open>\<^verbatim>\<open>createSliderGif\<close>: working size and palette samples\<close>

definition maxW :: rat where
  "maxW = 480"

text \<open>
  \<^verbatim>\<open>Math.min(1, maxW / srcW)\<close>, the quotient rounded. For \<open>srcW = 0\<close> the quotient is
  \<open>Infinity\<close> and the minimum is \<open>1\<close> (see \<open>gif_scale_jsnum\<close> below). The sides of a
  decoded image are \<^verbatim>\<open>unsigned long\<close> values of the DOM, below \<open>2^32\<close>, so the
  products \<^verbatim>\<open>srcW * scale\<close> and \<^verbatim>\<open>srcH * scale\<close> round without overflow.
\<close>

definition gif_scale :: "nat \<Rightarrow> rat" where
  "gif_scale srcW = (if srcW = 0 then 1 else min 1 (fl (maxW / of_nat srcW)))"

definition gif_srcW :: "image \<Rightarrow> image \<Rightarrow> nat" where
  "gif_srcW beforeImg afterImg = max (width beforeImg) (width afterImg)"

definition gif_srcH :: "image \<Rightarrow> image \<Rightarrow> nat" where
  "gif_srcH beforeImg afterImg = max (height beforeImg) (height afterImg)"

definition gif_w :: "image \<Rightarrow> image \<Rightarrow> nat" where
  "gif_w beforeImg afterImg =
     nat (Math_round (fl (of_nat (gif_srcW beforeImg afterImg)
                          * gif_scale (gif_srcW beforeImg afterImg))))"

definition gif_h :: "image \<Rightarrow> image \<Rightarrow> nat" where
  "gif_h beforeImg afterImg =
     nat (Math_round (fl (of_nat (gif_srcH beforeImg afterImg)
                          * gif_scale (gif_srcW beforeImg afterImg))))"

text \<open>
  Typed arrays. Reading past the end gives \<^verbatim>\<open>undefined\<close>, which a store into a
  \<^verbatim>\<open>Uint8Array\<close> turns into \<open>0\<close>; a store keeps the low eight bits and is ignored
  past the end.
\<close>

definition u8_get :: "nat list \<Rightarrow> nat \<Rightarrow> nat" where
  "u8_get xs i = (if i < length xs then xs ! i else 0)"

definition u8_set :: "nat list \<Rightarrow> nat \<Rightarrow> nat \<Rightarrow> nat list" where
  "u8_set xs i v = (if i < length xs then xs[i := v mod 256] else xs)"

definition step :: nat where
  "step = 4"

text \<open>
  \<^verbatim>\<open>for (let i = 0; i < totalPixels * 4; i += step * 4)\<close> with its four stores
  \<^verbatim>\<open>combined[ci++] = ...\<close>; the state is \<open>(combined, ci)\<close>.
\<close>

function sample_loop ::
  "nat list \<Rightarrow> nat \<Rightarrow> nat \<Rightarrow> nat list \<times> nat \<Rightarrow> nat list \<times> nat" where
  "sample_loop pixels totalPixels i (combined, ci) =
     (if i < totalPixels * 4 then
        let combined = u8_set combined ci (u8_get pixels i);
            combined = u8_set combined (ci + 1) (u8_get pixels (i + 1));
            combined = u8_set combined (ci + 2) (u8_get pixels (i + 2));
            combined = u8_set combined (ci + 3) 255
        in sample_loop pixels totalPixels (i + step * 4) (combined, ci + 4)
      else (combined, ci))"
  by pat_completeness auto
termination
  by (relation "measure (\<lambda>(pixels, totalPixels, i, st). totalPixels * 4 - i)")
    (auto simp: step_def)

declare sample_loop.simps [simp del]

text \<open>The argument of \<^verbatim>\<open>quantize\<close>: \<^verbatim>\<open>combined.subarray(0, ci)\<close>.\<close>

definition palette_samples :: "nat list \<Rightarrow> nat list \<Rightarrow> nat \<Rightarrow> nat \<Rightarrow> nat list" where
  "palette_samples beforePixels afterPixels w h =
     (let totalPixels = w * h;
          samplesPerImg = nat (Math_ceil (of_nat totalPixels / of_nat step));
          combined = replicate (samplesPerImg * 2 * 4) 0;
          st = sample_loop beforePixels totalPixels 0 (combined, 0);
          st = sample_loop afterPixels totalPixels 0 st
      in take (snd st) (fst st))"

subsection \<open>\<^verbatim>\<open>createSliderGif\<close>: the encoder\<close>

text \<open>
  The calls into \<^verbatim>\<open>gifenc\<close> and the yields to the event loop, in the order in which
  they happen: \<^verbatim>\<open>quantize(samples, 256)\<close>, \<^verbatim>\<open>applyPalette(rgba, palette)\<close>,
  \<^verbatim>\<open>gif.writeFrame(index, w, h, opts)\<close> with \<open>opts.delay\<close> and the optional
  \<open>opts.palette\<close>, the \<^verbatim>\<open>setTimeout(r, 0)\<close> yield, and \<^verbatim>\<open>gif.finish()\<close>.
\<close>

datatype call =
    Quantize "nat list" nat
  | ApplyPalette "nat list" palette
  | WriteFrame "nat list" nat nat nat "palette option"
  | Yield
  | Finish

fun is_Quantize :: "call \<Rightarrow> bool" where
  "is_Quantize (Quantize xs n) = True"
| "is_Quantize c = False"

fun is_WriteFrame :: "call \<Rightarrow> bool" where
  "is_WriteFrame (WriteFrame ix w h d p) = True"
| "is_WriteFrame c = False"

text \<open>
  \<^verbatim>\<open>for (let f = 0; f < frames.length; f++)\<close>. The state is the context (every frame
  is painted over the previous one on the same canvas) and the calls made so far.
\<close>

function encode_loop ::
  "platform \<Rightarrow> image \<Rightarrow> image \<Rightarrow> nat \<Rightarrow> nat \<Rightarrow> palette \<Rightarrow> Frame list \<Rightarrow> nat
     \<Rightarrow> cmd list \<times> call list \<Rightarrow> cmd list \<times> call list" where
  "encode_loop P beforeImg afterImg w h pal frames f (ctx, trace) =
     (if f < length frames then
        let fr = frames ! f;
            ctx = ctx @ renderSliderFrame P beforeImg afterImg (of_nat w) (of_nat h) (pct fr);
            rgba = getImageData P ctx w h;
            index = applyPalette P rgba pal;
            trace = trace @ [ApplyPalette rgba pal];
            trace = trace @ [WriteFrame index w h (delay fr) (if f = 0 then Some pal else None)];
            trace = (if f mod 5 = 0 then trace @ [Yield] else trace)
        in encode_loop P beforeImg afterImg w h pal frames (f + 1) (ctx, trace)
      else (ctx, trace))"
  by pat_completeness auto
termination
  by (relation "measure (\<lambda>(P, b, a, w, h, pal, frames, f, st). length frames - f)") auto

declare encode_loop.simps [simp del]

text \<open>
  The whole export after both images have been decoded. \<^verbatim>\<open>getImageData(0, 0, w, h)\<close>
  throws \<open>IndexSizeError\<close> when \<open>w\<close> or \<open>h\<close> is zero. The result is the sequence of
  encoder calls that determines the bytes of the \<^verbatim>\<open>image/gif\<close> blob.
\<close>

definition createSliderGif :: "platform \<Rightarrow> image \<Rightarrow> image \<Rightarrow> js_error + call list" where
  "createSliderGif P beforeImg afterImg =
     (let w = gif_w beforeImg afterImg;
          h = gif_h beforeImg afterImg
      in if w = 0 \<or> h = 0 then Inl IndexSizeError
         else
           let ctx = [DrawImageScaled beforeImg 0 0 (of_nat w) (of_nat h)];
               beforePixels = getImageData P ctx w h;
               ctx = ctx @ [DrawImageScaled afterImg 0 0 (of_nat w) (of_nat h)];
               afterPixels = getImageData P ctx w h;
               samples = palette_samples beforePixels afterPixels w h;
               pal = quantize P samples 256;
               trace = [Quantize samples 256];
               frames = build_frames;
               st = encode_loop P beforeImg afterImg w h pal frames 0 (ctx, trace)
           in Inr (snd st @ [Finish]))"

subsection \<open>\<^verbatim>\<open>captureFrame\<close>\<close>

text \<open>
  The canvas takes the video's current \<^verbatim>\<open>videoWidth\<close> and \<^verbatim>\<open>videoHeight\<close>, the
  current frame is drawn once over the whole canvas, and the canvas is encoded. There is no
  check of the size and no \<^verbatim>\<open>throw\<close>; \<open>drawImage\<close> of a video without a frame paints
  nothing and does not throw.
\<close>

definition captureFrame_canvas :: "video \<Rightarrow> canvas" where
  "captureFrame_canvas videoEl =
     (let c = \<lparr>canvas_width = of_nat (videoWidth videoEl),
               canvas_height = of_nat (videoHeight videoEl), calls = []\<rparr>
      in c\<lparr>calls := calls c @ [DrawVideoScaled videoEl 0 0 (canvas_width c) (canvas_height c)]\<rparr>)"

definition captureFrame :: "video \<Rightarrow> rat \<Rightarrow> js_error + data_url" where
  "captureFrame videoEl q = Inr (toDataURL (captureFrame_canvas videoEl) (str ''image/jpeg'') q)"

subsection \<open>\<^verbatim>\<open>escapeHtml\<close> and \<^verbatim>\<open>exportHtmlSlider\<close>\<close>

text \<open>\<^verbatim>\<open>s.replace(/c/g, r)\<close> for a single code unit \<open>c\<close>.\<close>

definition replace_all :: "nat \<Rightarrow> js_string \<Rightarrow> js_string \<Rightarrow> js_string" where
  "replace_all c r s = concat (map (\<lambda>x. if x = c then r else [x]) s)"

definition escapeHtml :: "js_string \<Rightarrow> js_string" where
  \<open>escapeHtml s =
     replace_all 0x27 (str ''&#039;'')
       (replace_all 0x22 (str ''&quot;'')
         (replace_all 0x3E (str ''&gt;'')
           (replace_all 0x3C (str ''&lt;'')
             (replace_all 0x26 (str ''&amp;'') s))))\<close>

text \<open>
  The template literal of \<^verbatim>\<open>exportHtmlSlider\<close>, line by line, cut at the two
  interpolations \<^verbatim>\<open>${afterBase64}\<close> and \<^verbatim>\<open>${beforeBase64}\<close>.
\<close>

fun join_lines :: "js_string list \<Rightarrow> js_string" where
  "join_lines [] = []"
| "join_lines [l] = l"
| "join_lines (l # ls) = l @ [0x0A] @ join_lines ls"

text \<open>The single quote, which a string literal cannot hold next to its delimiters.\<close>

definition sq :: js_string where
  "sq = [0x27]"

definition html_head :: "js_string list" where
  \<open>html_head =
     [
      str ''<!DOCTYPE html>'',
      str ''<html lang="en">'',
      str ''<head>'',
      str ''  <meta charset="UTF-8">'',
      str ''  <meta name="viewport" content="width=device-width, initial-scale=1.0">'',
      str ''  <title>Before &amp; After Comparison</title>'',
      str ''  <style>'',
      str ''    *, *::before, *::after { box-sizing: border-box; margin: 0; padding: 0; }'',
      str ''    body {'',
      str ''      display: flex;'',
      str ''      justify-content: center;'',
      str ''      align-items: center;'',
      str ''      min-height: 100vh;'',
      str ''      background: #1a1a1a;'',
      str ''      font-family: -apple-system, BlinkMacSystemFont, "Segoe UI", Roboto, sans-serif;'',
      str ''    }'',
      str ''    .slider-container {'',
      str ''      position: relative;'',
      str ''      width: 100%;'',
      str ''      max-width: 1200px;'',
      str ''      user-select: none;'',
      str ''      -webkit-user-select: none;'',
      str ''      overflow: hidden;'',
      str ''      line-height: 0;'',
      str ''    }'',
      str ''    .slider-img {'',
      str ''      display: block;'',
      str ''      width: 100%;'',
      str ''      height: auto;'',
      str ''    }'',
      str ''    .slider-overlay {'',
      str ''      position: absolute;'',
      str ''      top: 0;'',
      str ''      left: 0;'',
      str ''      width: 50%;'',
      str ''      height: 100%;'',
      str ''      overflow: hidden;'',
      str ''    }'',
      str ''    .slider-overlay .slider-img {'',
      str ''      display: block;'',
      str ''      position: absolute;'',
      str ''      top: 0;'',
      str ''      left: 0;'',
      str ''      height: 100%;'',
      str ''      max-width: none;'',
      str ''    }'',
      str ''    .slider-handle {'',
      str ''      position: absolute;'',
      str ''      top: 0;'',
      str ''      bottom: 0;'',
      str ''      left: 50%;'',
      str ''      width: 4px;'',
      str ''      margin-left: -2px;'',
      str ''      background: #fff;'',
      str ''      cursor: ew-resize;'',
      str ''      z-index: 10;'',
      str ''      box-shadow: 0 0 8px rgba(0,0,0,0.5);'',
      str ''    }'',
      str ''    .slider-handle::before {'',
      str ''      content: '' @ sq @ sq @ str '';'',
      str ''      position: absolute;'',
      str ''      top: 50%;'',
      str ''      left: 50%;'',
      str ''      transform: translate(-50%, -50%);'',
      str ''      width: 44px;'',
      str ''      height: 44px;'',
      str ''      background: #fff;'',
      str ''      border-radius: 50%;'',
      str ''      box-shadow: 0 2px 12px rgba(0,0,0,0.4);'',
      str ''    }'',
      str ''    .slider-handle::after {'',
      str ''      content: '' @ sq @ [0x5C] @ str ''2194'' @ sq @ str '';'',
      str ''      position: absolute;'',
      str ''      top: 50%;'',
      str ''      left: 50%;'',
      str ''      transform: translate(-50%, -50%);'',
      str ''      font-size: 20px;'',
      str ''      color: #333;'',
      str ''      z-index: 1;'',
      str ''    }'',
      str ''    .label {'',
      str ''      position: absolute;'',
      str ''      top: 16px;'',
      str ''      padding: 8px 16px;'',
      str ''      background: rgba(0,0,0,0.7);'',
      str ''      color: #fff;'',
      str ''      font: bold 14px -apple-system, BlinkMacSystemFont, "Segoe UI", Roboto, sans-serif;'',
      str ''      border-radius: 6px;'',
      str ''      z-index: 5;'',
      str ''      letter-spacing: 1px;'',
      str ''      text-transform: uppercase;'',
      str ''    }'',
      str ''    .label-before { left: 16px; }'',
      str ''    .label-after { right: 16px; }'',
      str ''    .credit {'',
      str ''      position: fixed;'',
      str ''      bottom: 8px;'',
      str ''      right: 12px;'',
      str ''      font-size: 11px;'',
      str ''      color: #666;'',
      str ''    }'',
      str ''  </style>'',
      str ''</head>'',
      str ''<body>'',
      str ''  <div class="slider-container" id="container" role="slider" aria-label="Before and after comparison" aria-valuemin="0" aria-valuemax="100" aria-valuenow="50" tabindex="0">'',
      str ''    <img class="slider-img" id="afterImg" src="'']\<close>

definition html_mid :: "js_string list" where
  \<open>html_mid =
     [
      str ''" alt="After" draggable="false">'',
      str ''    <div class="slider-overlay" id="overlay">'',
      str ''      <img class="slider-img" id="beforeImg" src="'']\<close>

definition html_tail :: "js_string list" where
  \<open>html_tail =
     [
      str ''" alt="Before" draggable="false">'',
      str ''    </div>'',
      str ''    <div class="slider-handle" id="handle"></div>'',
      str ''    <div class="label label-before">Before</div>'',
      str ''    <div class="label label-after">After</div>'',
      str ''  </div>'',
      str ''  <div class="credit">Before/After Pro</div>'',
      str ''  <script>'',
      str ''    (function() {'',
      str ''      var handle = document.getElementById('' @ sq @ str ''handle'' @ sq @ str '');'',
      str ''      var overlay = document.getElementById('' @ sq @ str ''overlay'' @ sq @ str '');'',
      str ''      var container = document.getElementById('' @ sq @ str ''container'' @ sq @ str '');'',
      str ''      var beforeImg = document.getElementById('' @ sq @ str ''beforeImg'' @ sq @ str '');'',
      str ''      var afterImg = document.getElementById('' @ sq @ str ''afterImg'' @ sq @ str '');'',
      str ''      var isDragging = false;'',
      [],
      str ''      function matchSize() {'',
      str ''        beforeImg.style.width = afterImg.offsetWidth + '' @ sq @ str ''px'' @ sq @ str '';'',
      str ''        beforeImg.style.height = afterImg.offsetHeight + '' @ sq @ str ''px'' @ sq @ str '';'',
      str ''      }'',
      [],
      str ''      function updateSlider(clientX) {'',
      str ''        var rect = container.getBoundingClientRect();'',
      str ''        var x = clientX - rect.left;'',
      str ''        var pct = Math.max(0, Math.min(100, (x / rect.width) * 100));'',
      str ''        handle.style.left = pct + '' @ sq @ str ''%'' @ sq @ str '';'',
      str ''        overlay.style.width = pct + '' @ sq @ str ''%'' @ sq @ str '';'',
      str ''        container.setAttribute('' @ sq @ str ''aria-valuenow'' @ sq @ str '', Math.round(pct));'',
      str ''      }'',
      [],
      str ''      afterImg.addEventListener('' @ sq @ str ''load'' @ sq @ str '', matchSize);'',
      str ''      window.addEventListener('' @ sq @ str ''resize'' @ sq @ str '', matchSize);'',
      str ''      matchSize();'',
      [],
      str ''      handle.addEventListener('' @ sq @ str ''mousedown'' @ sq @ str '', function(e) { isDragging = true; e.preventDefault(); });'',
      str ''      handle.addEventListener('' @ sq @ str ''touchstart'' @ sq @ str '', function() { isDragging = true; }, { passive: true });'',
      [],
      str ''      document.addEventListener('' @ sq @ str ''mousemove'' @ sq @ str '', function(e) {'',
      str ''        if (isDragging) updateSlider(e.clientX);'',
      str ''      });'',
      str ''      document.addEventListener('' @ sq @ str ''touchmove'' @ sq @ str '', function(e) {'',
      str ''        if (isDragging) { e.preventDefault(); updateSlider(e.touches[0].clientX); }'',
      str ''      }, { passive: false });'',
      [],
      str ''      document.addEventListener('' @ sq @ str ''mouseup'' @ sq @ str '', function() { isDragging = false; });'',
      str ''      document.addEventListener('' @ sq @ str ''touchend'' @ sq @ str '', function() { isDragging = false; });'',
      [],
      str ''      container.addEventListener('' @ sq @ str ''click'' @ sq @ str '', function(e) { updateSlider(e.clientX); });'',
      [],
      str ''      container.addEventListener('' @ sq @ str ''keydown'' @ sq @ str '', function(e) {'',
      str ''        var currentPct = parseFloat(handle.style.left) || 50;'',
      str ''        var step = 2;'',
      str ''        if (e.key === '' @ sq @ str ''ArrowLeft'' @ sq @ str '') { currentPct = Math.max(0, currentPct - step); }'',
      str ''        else if (e.key === '' @ sq @ str ''ArrowRight'' @ sq @ str '') { currentPct = Math.min(100, currentPct + step); }'',
      str ''        else { return; }'',
      str ''        e.preventDefault();'',
      str ''        handle.style.left = currentPct + '' @ sq @ str ''%'' @ sq @ str '';'',
      str ''        overlay.style.width = currentPct + '' @ sq @ str ''%'' @ sq @ str '';'',
      str ''        container.setAttribute('' @ sq @ str ''aria-valuenow'' @ sq @ str '', Math.round(currentPct));'',
      str ''      });'',
      str ''    })();'',
      str ''  </script>'',
      str ''</body>'',
      str ''</html>'']\<close>

text \<open>
  The download handed to \<^verbatim>\<open>downloadBlob\<close>: the text of the blob, its type and the
  file name.
\<close>

record download =
  blob_text :: js_string
  blob_type :: js_string
  filename :: js_string

definition exportHtmlSlider :: "js_string \<Rightarrow> js_string \<Rightarrow> js_error + download" where
  "exportHtmlSlider beforeDataUrl afterDataUrl =
     (if \<not> startsWith beforeDataUrl (str ''data:image/'')
         \<or> \<not> startsWith afterDataUrl (str ''data:image/'')
      then Inl (Error (str ''Invalid image data''))
      else
        let beforeBase64 = escapeHtml beforeDataUrl;
            afterBase64 = escapeHtml afterDataUrl;
            html = join_lines html_head @ afterBase64 @ join_lines html_mid
                   @ beforeBase64 @ join_lines html_tail
        in Inr \<lparr>blob_text = html, blob_type = str ''text/html'',
                filename = str ''before-after-slider.html''\<rparr>)"

subsection \<open>Interactive sliders: the event listeners\<close>

text \<open>
  The objects listeners are attached to: \<^verbatim>\<open>window\<close>, \<^verbatim>\<open>document\<close>, and the
  elements found inside a container (the number identifies the container). A container may
  lack the optional close button.
\<close>

datatype target =
    Window
  | Document
  | AfterImg nat
  | HandleEl nat
  | ContainerEl nat
  | CloseBtn nat
  | Wrapper nat

record container =
  cid :: nat
  has_closeBtn :: bool

text \<open>
  Every run of an init function creates its handlers anew; a handler is identified by the
  run that created it and by its name in the source. A listener is a target, an event type
  and a handler (none of them is a capturing listener). The cleanup closure kept in a module
  variable is identified by its run and the container it captured.
\<close>

datatype handler = Handler nat string

type_synonym listener = "target \<times> string \<times> handler"

datatype cleanup = InlineCleanup nat container | FullscreenCleanup nat container

record page =
  listeners :: "listener list"
  inlineSliderCleanup :: "cleanup option"
  fullscreenSliderCleanup :: "cleanup option"
  runs :: nat
  closed :: nat

definition initial_page :: page where
  "initial_page = \<lparr>listeners = [], inlineSliderCleanup = None,
                    fullscreenSliderCleanup = None, runs = 0, closed = 0\<rparr>"

text \<open>
  \<^verbatim>\<open>addEventListener\<close> ignores a listener that is already registered;
  \<^verbatim>\<open>removeEventListener\<close> removes the listener with the same target, type and
  callback.
\<close>

definition addEventListener :: "listener \<Rightarrow> page \<Rightarrow> page" where
  "addEventListener l p =
     (if l \<in> set (listeners p) then p else p\<lparr>listeners := listeners p @ [l]\<rparr>)"

definition removeEventListener :: "listener \<Rightarrow> page \<Rightarrow> page" where
  "removeEventListener l p = p\<lparr>listeners := filter (\<lambda>x. x \<noteq> l) (listeners p)\<rparr>"

text \<open>The \<^verbatim>\<open>addEventListener\<close> calls of \<^verbatim>\<open>initInlineSlider\<close>, in order.\<close>

definition inline_added :: "nat \<Rightarrow> container \<Rightarrow> listener list" where
  "inline_added g c =
     [(AfterImg (cid c), ''load'', Handler g ''onLoad''),
      (Window, ''resize'', Handler g ''onResize''),
      (Window, ''orientationchange'', Handler g ''onOrientationChange''),
      (HandleEl (cid c), ''mousedown'', Handler g ''onMouseDown''),
      (HandleEl (cid c), ''touchstart'', Handler g ''onTouchStart''),
      (Document, ''mousemove'', Handler g ''onMouseMove''),
      (Document, ''touchmove'', Handler g ''onTouchMove''),
      (Document, ''mouseup'', Handler g ''onMouseUp''),
      (Document, ''touchend'', Handler g ''onTouchEnd''),
      (ContainerEl (cid c), ''click'', Handler g ''onClick'')]"

text \<open>The \<^verbatim>\<open>removeEventListener\<close> calls of the closure stored in
  \<^verbatim>\<open>inlineSliderCleanup\<close>, in order.\<close>

definition inline_removed :: "nat \<Rightarrow> container \<Rightarrow> listener list" where
  "inline_removed g c =
     [(AfterImg (cid c), ''load'', Handler g ''onLoad''),
      (Window, ''resize'', Handler g ''onResize''),
      (Window, ''orientationchange'', Handler g ''onOrientationChange''),
      (HandleEl (cid c), ''mousedown'', Handler g ''onMouseDown''),
      (HandleEl (cid c), ''touchstart'', Handler g ''onTouchStart''),
      (Document, ''mousemove'', Handler g ''onMouseMove''),
      (Document, ''touchmove'', Handler g ''onTouchMove''),
      (Document, ''mouseup'', Handler g ''onMouseUp''),
      (Document, ''touchend'', Handler g ''onTouchEnd''),
      (ContainerEl (cid c), ''click'', Handler g ''onClick'')]"

text \<open>The \<^verbatim>\<open>addEventListener\<close> calls of \<^verbatim>\<open>initFullscreenSlider\<close>, in order.\<close>

definition fullscreen_added :: "nat \<Rightarrow> container \<Rightarrow> listener list" where
  "fullscreen_added g c =
     [(AfterImg (cid c), ''load'', Handler g ''onLoad''),
      (Window, ''resize'', Handler g ''onResize''),
      (Window, ''orientationchange'', Handler g ''onOrientationChange''),
      (HandleEl (cid c), ''mousedown'', Handler g ''onHandleMouseDown''),
      (HandleEl (cid c), ''touchstart'', Handler g ''onHandleTouchStart''),
      (Document, ''mousemove'', Handler g ''onMove''),
      (Document, ''touchmove'', Handler g ''onDocTouchMove''),
      (Document, ''mouseup'', Handler g ''onUp''),
      (Document, ''touchend'', Handler g ''onTouchEndDoc'')]
     @ (if has_closeBtn c then [(CloseBtn (cid c), ''click'', Handler g ''onCloseClick'')]
        else [])
     @ [(ContainerEl (cid c), ''click'', Handler g ''onContainerClick''),
        (Wrapper (cid c), ''click'', Handler g ''onWrapperClick'')]"

text \<open>The \<^verbatim>\<open>removeEventListener\<close> calls of \<^verbatim>\<open>cleanup\<close> in
  \<^verbatim>\<open>initFullscreenSlider\<close>, in order.\<close>

definition fullscreen_removed :: "nat \<Rightarrow> container \<Rightarrow> listener list" where
  "fullscreen_removed g c =
     [(AfterImg (cid c), ''load'', Handler g ''onLoad''),
      (Window, ''resize'', Handler g ''onResize''),
      (Window, ''orientationchange'', Handler g ''onOrientationChange''),
      (HandleEl (cid c), ''mousedown'', Handler g ''onHandleMouseDown''),
      (HandleEl (cid c), ''touchstart'', Handler g ''onHandleTouchStart''),
      (Document, ''mousemove'', Handler g ''onMove''),
      (Document, ''touchmove'', Handler g ''onDocTouchMove''),
      (Document, ''mouseup'', Handler g ''onUp''),
      (Document, ''touchend'', Handler g ''onTouchEndDoc'')]
     @ (if has_closeBtn c then [(CloseBtn (cid c), ''click'', Handler g ''onCloseClick'')]
        else [])
     @ [(ContainerEl (cid c), ''click'', Handler g ''onContainerClick''),
        (Wrapper (cid c), ''click'', Handler g ''onWrapperClick'')]"

text \<open>
  Running a stored cleanup closure. The fullscreen one also clears its module variable and
  calls \<^verbatim>\<open>onClose()\<close>.
\<close>

fun run_cleanup :: "cleanup \<Rightarrow> page \<Rightarrow> page" where
  "run_cleanup (InlineCleanup g c) p = fold removeEventListener (inline_removed g c) p"
| "run_cleanup (FullscreenCleanup g c) p =
     (fold removeEventListener (fullscreen_removed g c) p)
       \<lparr>fullscreenSliderCleanup := None, closed := closed p + 1\<rparr>"

definition destroyInlineSlider :: "page \<Rightarrow> page" where
  "destroyInlineSlider p =
     (case inlineSliderCleanup p of
        Some cl \<Rightarrow> (run_cleanup cl p)\<lparr>inlineSliderCleanup := None\<rparr>
      | None \<Rightarrow> p)"

definition destroyFullscreenSlider :: "page \<Rightarrow> page" where
  "destroyFullscreenSlider p =
     (case fullscreenSliderCleanup p of
        Some cl \<Rightarrow> (run_cleanup cl p)\<lparr>fullscreenSliderCleanup := None\<rparr>
      | None \<Rightarrow> p)"

text \<open>
  \<^verbatim>\<open>initInlineSlider\<close> and \<^verbatim>\<open>initFullscreenSlider\<close> on a container that has the
  elements they look up: first the stored cleanup of the previous instance, then the new
  handlers and their registration, then the new cleanup is stored.
\<close>

definition initInlineSlider :: "container \<Rightarrow> page \<Rightarrow> page" where
  "initInlineSlider c p =
     (let p = (case inlineSliderCleanup p of
                 Some cl \<Rightarrow> (run_cleanup cl p)\<lparr>inlineSliderCleanup := None\<rparr>
               | None \<Rightarrow> p);
          g = runs p;
          p = p\<lparr>runs := g + 1\<rparr>;
          p = fold addEventListener (inline_added g c) p
      in p\<lparr>inlineSliderCleanup := Some (InlineCleanup g c)\<rparr>)"

definition initFullscreenSlider :: "container \<Rightarrow> page \<Rightarrow> page" where
  "initFullscreenSlider c p =
     (let p = (case fullscreenSliderCleanup p of
                 Some cl \<Rightarrow> (run_cleanup cl p)\<lparr>fullscreenSliderCleanup := None\<rparr>
               | None \<Rightarrow> p);
          g = runs p;
          p = p\<lparr>runs := g + 1\<rparr>;
          p = fold addEventListener (fullscreen_added g c) p
      in p\<lparr>fullscreenSliderCleanup := Some (FullscreenCleanup g c)\<rparr>)"

text \<open>Calls from the application, in any order.\<close>

datatype slider_call =
    InitInline container
  | InitFullscreen container
  | DestroyInline
  | DestroyFullscreen

fun do_call :: "slider_call \<Rightarrow> page \<Rightarrow> page" where
  "do_call (InitInline c) p = initInlineSlider c p"
| "do_call (InitFullscreen c) p = initFullscreenSlider c p"
| "do_call DestroyInline p = destroyInlineSlider p"
| "do_call DestroyFullscreen p = destroyFullscreenSlider p"

text \<open>The listeners that a stored cleanup closure stands for.\<close>

fun live :: "cleanup option \<Rightarrow> listener list" where
  "live None = []"
| "live (Some (InlineCleanup g c)) = inline_added g c"
| "live (Some (FullscreenCleanup g c)) = fullscreen_added g c"

subsection \<open>Notions used in the statements\<close>

text \<open>
  The easing curve as the specification writes it, in exact arithmetic: \<open>2t^2\<close> for
  \<open>t < 0.5\<close> and \<open>1 - (-2t + 2)^2 / 2\<close> otherwise.
\<close>

definition ease_in_out :: "rat \<Rightarrow> rat" where
  "ease_in_out t = (if t < 1 / 2 then 2 * t\<^sup>2 else 1 - (- 2 * t + 2)\<^sup>2 / 2)"

text \<open>The two \<^verbatim>\<open>drawImage(img, x, y)\<close> calls of the side-by-side canvas.\<close>

fun is_DrawImage :: "cmd \<Rightarrow> bool" where
  "is_DrawImage (DrawImage i x y) = True"
| "is_DrawImage c = False"

text \<open>
  An extent of length \<open>len\<close> placed at \<open>x\<close> is centred in the interval from \<open>lo\<close> to
  \<open>hi\<close>: it lies inside, and the margins on both sides are equal.
\<close>

definition centred :: "rat \<Rightarrow> rat \<Rightarrow> rat \<Rightarrow> rat \<Rightarrow> bool" where
  "centred lo hi x len \<longleftrightarrow> lo \<le> x \<and> x + len \<le> hi \<and> x - lo = hi - (x + len)"

text \<open>
  What \<^verbatim>\<open>escapeHtml\<close> does to a single code unit: the five markup characters become
  entities, every other code unit stays.
\<close>

definition escape_unit :: "nat \<Rightarrow> js_string" where
  \<open>escape_unit c =
     (if c = 0x26 then str ''&amp;''
      else if c = 0x3C then str ''&lt;''
      else if c = 0x3E then str ''&gt;''
      else if c = 0x22 then str ''&quot;''
      else if c = 0x27 then str ''&#039;''
      else [c])\<close>

text \<open>
  The run that created a listener's handler. A module
  variable of the inline slider holds an inline cleanup (or nothing), and likewise for the
  fullscreen slider.
\<close>

fun run_of :: "listener \<Rightarrow> nat" where
  "run_of (t, ty, Handler g n) = g"

definition is_inline :: "cleanup option \<Rightarrow> bool" where
  "is_inline x \<longleftrightarrow> (case x of None \<Rightarrow> True | Some (InlineCleanup g c) \<Rightarrow> True | _ \<Rightarrow> False)"

definition is_fullscreen :: "cleanup option \<Rightarrow> bool" where
  "is_fullscreen x \<longleftrightarrow> (case x of None \<Rightarrow> True | Some (FullscreenCleanup g c) \<Rightarrow> True | _ \<Rightarrow> False)"

text \<open>
  The state of a page that the init and destroy functions maintain: the registered
  listeners are, without repetition, those of the two stored cleanup closures, and every
  handler comes from an earlier run.
\<close>

definition page_ok :: "page \<Rightarrow> bool" where
  "page_ok p \<longleftrightarrow>
     is_inline (inlineSliderCleanup p) \<and> is_fullscreen (fullscreenSliderCleanup p)
     \<and> (\<forall>l\<in>set (listeners p). run_of l < runs p)
     \<and> distinct (listeners p)
     \<and> set (live (inlineSliderCleanup p)) \<inter> set (live (fullscreenSliderCleanup p)) = {}
     \<and> set (listeners p) =
         set (live (inlineSliderCleanup p)) \<union> set (live (fullscreenSliderCleanup p))"

text \<open>
  The sample taken from pixel \<open>4k\<close> of a buffer: its bytes start at offset \<open>4 * 4k = 16k\<close>;
  red, green and blue are copied and alpha is set to 255.
\<close>

definition sample_at :: "nat list \<Rightarrow> nat \<Rightarrow> nat list" where
  "sample_at pixels k =
     [u8_get pixels (16 * k) mod 256, u8_get pixels (16 * k + 1) mod 256,
      u8_get pixels (16 * k + 2) mod 256, 255]"

text \<open>The samples of every 4th pixel of a buffer of \<open>totalPixels\<close> pixels, in order.\<close>

definition every_4th_pixel :: "nat list \<Rightarrow> nat \<Rightarrow> nat list" where
  "every_4th_pixel pixels totalPixels =
     concat (map (sample_at pixels) [0 ..< (totalPixels + 3) div 4])"

text \<open>
  The encoder calls for frame \<open>k\<close>, given the context after the frame has been painted.
\<close>

definition frame_calls ::
  "platform \<Rightarrow> nat \<Rightarrow> nat \<Rightarrow> palette \<Rightarrow> Frame list \<Rightarrow> cmd list \<Rightarrow> nat \<Rightarrow> call list" where
  "frame_calls P w h pal frames ctx k =
     (let rgba = getImageData P ctx w h
      in [ApplyPalette rgba pal,
          WriteFrame (applyPalette P rgba pal) w h (delay (frames ! k))
            (if k = 0 then Some pal else None)]
         @ (if k mod 5 = 0 then [Yield] else []))"

text \<open>The context calls painted for the frames \<open>f, \<dots>, k - 1\<close>.\<close>

definition frames_ctx ::
  "platform \<Rightarrow> image \<Rightarrow> image \<Rightarrow> nat \<Rightarrow> nat \<Rightarrow> Frame list \<Rightarrow> nat \<Rightarrow> nat \<Rightarrow> cmd list" where
  "frames_ctx P b a w h frames f k =
     concat (map (\<lambda>j. renderSliderFrame P b a (of_nat w) (of_nat h) (pct (frames ! j))) [f ..< k])"

text \<open>
  The context after the two pictures have been drawn for the palette, the samples handed to
  \<^verbatim>\<open>quantize\<close>, the palette it returns, and the encoder calls of frame \<open>k\<close> of an export.
\<close>

definition gif_ctx0 :: "image \<Rightarrow> image \<Rightarrow> cmd list" where
  "gif_ctx0 b a =
     [DrawImageScaled b 0 0 (of_nat (gif_w b a)) (of_nat (gif_h b a)),
      DrawImageScaled a 0 0 (of_nat (gif_w b a)) (of_nat (gif_h b a))]"

definition gif_samples :: "platform \<Rightarrow> image \<Rightarrow> image \<Rightarrow> nat list" where
  "gif_samples P b a =
     every_4th_pixel
       (getImageData P [DrawImageScaled b 0 0 (of_nat (gif_w b a)) (of_nat (gif_h b a))]
          (gif_w b a) (gif_h b a))
       (gif_w b a * gif_h b a)
     @ every_4th_pixel (getImageData P (gif_ctx0 b a) (gif_w b a) (gif_h b a))
         (gif_w b a * gif_h b a)"

definition gif_palette :: "platform \<Rightarrow> image \<Rightarrow> image \<Rightarrow> palette" where
  "gif_palette P b a = quantize P (gif_samples P b a) 256"

definition gif_frame_calls :: "platform \<Rightarrow> image \<Rightarrow> image \<Rightarrow> nat \<Rightarrow> call list" where
  "gif_frame_calls P b a k =
     frame_calls P (gif_w b a) (gif_h b a) (gif_palette P b a) build_frames
       (gif_ctx0 b a @ frames_ctx P b a (gif_w b a) (gif_h b a) build_frames 0 (Suc k)) k"

text \<open>
  Read off a sequence of encoder calls: the palettes passed to \<^verbatim>\<open>applyPalette\<close>, and
  the delay and palette option of every \<^verbatim>\<open>writeFrame\<close>, in order.
\<close>

definition applied_palettes :: "call list \<Rightarrow> palette list" where
  "applied_palettes tr =
     concat (map (\<lambda>c. case c of ApplyPalette rgba pal \<Rightarrow> [pal] | _ \<Rightarrow> []) tr)"

definition written :: "call list \<Rightarrow> (nat \<times> palette option) list" where
  "written tr =
     concat (map (\<lambda>c. case c of WriteFrame ix w h d pal \<Rightarrow> [(d, pal)] | _ \<Rightarrow> []) tr)"

text \<open>
  A concrete platform for evaluating the functions on examples: every code unit is 10 px
  wide, every date prints as the same day, every canvas is black and transparent, and the
  palette has the single colour black.
\<close>

definition example_platform :: platform where
  "example_platform =
     \<lparr>measureText = (\<lambda>f s. 10 * of_nat (length s)),
      formatDate = (\<lambda>d. str ''Feb 19, 2026''),
      getImageData = (\<lambda>cs w h. replicate (4 * w * h) 0),
      quantizer = (\<lambda>xs n. take n [[0, 0, 0]]),
      applyPalette = (\<lambda>xs pal. replicate (length xs div 4) 0)\<rparr>"

section \<open>Properties\<close>

subsection \<open>Rounding to doubles\<close>

text \<open>
  The exponent brackets its argument; \<open>fl\<close> is within half a unit in the last place of
  its argument, keeps whole numbers below \<open>2^53\<close>, and is determined by an exponent and
  a significand that are given (\<open>fl_eqI\<close>, used to evaluate it on constants).
\<close>

lemma powi_Suc: "(2::rat) powi (e + 1) = 2 powi e * 2"
  by (simp add: power_int_add_1)

lemma powi_less_imp: "(2::rat) powi a < 2 powi b \<Longrightarrow> a < b"
proof (rule ccontr)
  assume lt: "(2::rat) powi a < 2 powi b" and "\<not> a < b"
  then have "b \<le> a" by simp
  then have "(2::rat) powi b \<le> 2 powi a"
    by (intro power_int_increasing) simp_all
  with lt show False by simp
qed

lemma expo_hi_spec:
  "1 \<le> x \<Longrightarrow> 2 powi expo_hi x \<le> x \<and> x < 2 powi (expo_hi x + 1) \<and> 0 \<le> expo_hi x"
proof (induction x rule: expo_hi.induct)
  case (1 x)
  show ?case
  proof (cases "2 \<le> x")
    case True
    then have ih: "2 powi expo_hi (x / 2) \<le> x / 2 \<and> x / 2 < 2 powi (expo_hi (x / 2) + 1)
        \<and> 0 \<le> expo_hi (x / 2)"
      using "1.IH" by simp
    have e: "expo_hi x = expo_hi (x / 2) + 1"
      using True by (subst expo_hi.simps) simp
    have "2 powi expo_hi (x / 2) * 2 \<le> x"
      using ih by simp
    then have a: "2 powi (expo_hi (x / 2) + 1) \<le> x"
      by (simp only: powi_Suc)
    have "x < 2 powi (expo_hi (x / 2) + 1) * 2"
      using ih by simp
    then have b: "x < 2 powi (expo_hi (x / 2) + 1 + 1)"
      by (simp only: powi_Suc [of "expo_hi (x / 2) + 1"])
    have c: "0 \<le> expo_hi (x / 2) + 1"
      using ih by simp
    show ?thesis
      unfolding e using a b c by (intro conjI)
  next
    case False
    then have e: "expo_hi x = 0"
      by (subst expo_hi.simps) simp
    show ?thesis
      unfolding e using False "1.prems" by simp
  qed
qed

lemma expo_lo_spec:
  "0 < x \<Longrightarrow> x < 1 \<Longrightarrow> 2 powi expo_lo x \<le> x \<and> x < 2 powi (expo_lo x + 1) \<and> expo_lo x < 0"
proof (induction x rule: expo_lo.induct)
  case (1 x)
  have e: "expo_lo x = expo_lo (x * 2) - 1"
    using "1.prems" by (subst expo_lo.simps) simp
  have s: "(2::rat) powi expo_lo (x * 2) = 2 powi (expo_lo (x * 2) - 1) * 2"
    using powi_Suc [of "expo_lo (x * 2) - 1"] by simp
  show ?case
  proof (cases "x * 2 < 1")
    case True
    then have ih: "2 powi expo_lo (x * 2) \<le> x * 2 \<and> x * 2 < 2 powi (expo_lo (x * 2) + 1)
        \<and> expo_lo (x * 2) < 0"
      using "1.IH" "1.prems" by simp
    have "2 powi (expo_lo (x * 2) - 1) * 2 \<le> x * 2"
      using ih s by simp
    then have a: "2 powi (expo_lo (x * 2) - 1) \<le> x"
      by simp
    have "x * 2 < 2 powi expo_lo (x * 2) * 2"
      using ih by (simp only: powi_Suc)
    then have b: "x < 2 powi (expo_lo (x * 2) - 1 + 1)"
      by simp
    have c: "expo_lo (x * 2) - 1 < 0"
      using ih by simp
    show ?thesis
      unfolding e using a b c by (intro conjI)
  next
    case False
    then have z: "expo_lo (x * 2) = 0"
      by (subst expo_lo.simps) simp
    have "(2::rat) powi (- 1) = 1 / 2"
      by (simp add: power_int_minus_divide)
    then show ?thesis
      unfolding e z using False "1.prems" by simp
  qed
qed

lemma expo_spec: "0 < x \<Longrightarrow> 2 powi expo x \<le> x \<and> x < 2 powi (expo x + 1)"
  using expo_hi_spec [of x] expo_lo_spec [of x] by (cases "1 \<le> x") (simp_all add: expo_def)

lemma expo_less:
  assumes "0 < x" "x < 2 powi n"
  shows "expo x < n"
proof -
  have "2 powi expo x \<le> x"
    using expo_spec [OF assms(1)] by simp
  then have "(2::rat) powi expo x < 2 powi n"
    using assms(2) by simp
  then show ?thesis
    by (rule powi_less_imp)
qed

lemma expo_ge:
  assumes "2 powi n \<le> x"
  shows "n \<le> expo x"
proof -
  have "0 < x"
    using assms by (rule less_le_trans [rotated]) simp
  then have "x < 2 powi (expo x + 1)"
    using expo_spec by simp
  then have "(2::rat) powi n < 2 powi (expo x + 1)"
    using assms by simp
  then have "n < expo x + 1"
    by (rule powi_less_imp)
  then show ?thesis by simp
qed

lemma round_even_err: "\<bar>of_int (round_even y) - y\<bar> \<le> 1 / 2"
proof -
  have "of_int \<lfloor>y\<rfloor> \<le> y" "y < of_int \<lfloor>y\<rfloor> + 1" by linarith+
  then show ?thesis
    by (auto simp: round_even_def Let_def)
qed

lemma round_even_of_int: "round_even (of_int k) = k"
  by (simp add: round_even_def)

lemma round_even_ge:
  assumes "of_int k \<le> y"
  shows "k \<le> round_even y"
proof -
  have "k \<le> \<lfloor>y\<rfloor>"
    using assms by (simp add: le_floor_iff)
  then show ?thesis
    by (simp add: round_even_def Let_def)
qed

lemma ulp_pos: "0 < ulp x"
  by (simp add: ulp_def)

lemma fl_ulp_err: "\<bar>fl x - x\<bar> \<le> ulp x / 2"
proof -
  have u: "0 < ulp x" by (rule ulp_pos)
  have "\<bar>of_int (round_even (x / ulp x)) - x / ulp x\<bar> \<le> 1 / 2"
    by (rule round_even_err)
  then have "\<bar>of_int (round_even (x / ulp x)) - x / ulp x\<bar> * ulp x \<le> 1 / 2 * ulp x"
    using u by (intro mult_right_mono) simp_all
  moreover have "\<bar>of_int (round_even (x / ulp x)) - x / ulp x\<bar> * ulp x =
      \<bar>of_int (round_even (x / ulp x)) * ulp x - x\<bar>"
  proof -
    have "\<bar>of_int (round_even (x / ulp x)) - x / ulp x\<bar> * ulp x =
      \<bar>(of_int (round_even (x / ulp x)) - x / ulp x) * ulp x\<bar>"
      using u by (simp add: abs_mult)
    also have "(of_int (round_even (x / ulp x)) - x / ulp x) * ulp x =
        of_int (round_even (x / ulp x)) * ulp x - x"
      using u by (simp add: algebra_simps)
    finally show ?thesis .
  qed
  ultimately show ?thesis
    by (simp add: fl_def)
qed

lemma fl_0: "fl 0 = 0"
  by (simp add: fl_def round_even_def)

lemma fl_nonneg:
  assumes "0 \<le> x"
  shows "0 \<le> fl x"
proof -
  have "0 \<le> x / ulp x"
    using assms ulp_pos [of x] by simp
  then have "0 \<le> round_even (x / ulp x)"
    using round_even_ge [of 0 "x / ulp x"] by simp
  then show ?thesis
    using ulp_pos [of x] by (simp add: fl_def)
qed

lemma fl_abs_err:
  assumes "\<bar>x\<bar> < 2 ^ n"
  shows "\<bar>fl x - x\<bar> \<le> 2 ^ n / 2 ^ 54"
proof (cases "x = 0")
  case True
  then show ?thesis by (simp add: fl_0)
next
  case False
  then have pos: "0 < \<bar>x\<bar>" by simp
  have "\<bar>x\<bar> < 2 powi (int n)"
    using assms by simp
  then have "expo \<bar>x\<bar> < int n"
    using pos by (rule expo_less [rotated])
  then have "max (expo \<bar>x\<bar>) emin - 52 \<le> int n - 53"
    by (simp add: emin_def)
  then have "ulp x \<le> 2 powi (int n - 53)"
    unfolding ulp_def by (intro power_int_increasing) simp_all
  also have "\<dots> = 2 ^ n / 2 ^ 53"
    by (simp add: power_int_diff)
  finally have "ulp x / 2 \<le> 2 ^ n / 2 ^ 53 / 2"
    by (rule divide_right_mono) simp
  then show ?thesis
    using fl_ulp_err [of x] by simp
qed

lemma fl_rel_err:
  assumes "2 powi emin \<le> x"
  shows "\<bar>fl x - x\<bar> \<le> x / 2 ^ 53"
proof -
  have pos: "0 < x"
    using assms by (rule less_le_trans [rotated]) simp
  have sp: "2 powi expo x \<le> x"
    using expo_spec [OF pos] by simp
  have "emin \<le> expo x"
    using assms by (rule expo_ge)
  then have m: "max (expo \<bar>x\<bar>) emin = expo x"
    using pos by simp
  have "ulp x / 2 = 2 powi (expo x - 52) / 2"
    by (simp only: ulp_def m)
  also have "\<dots> = 2 powi expo x / 2 ^ 53"
    by (simp add: power_int_diff)
  also have "\<dots> \<le> x / 2 ^ 53"
    using sp by (rule divide_right_mono) simp
  finally show ?thesis
    using fl_ulp_err [of x] by simp
qed

lemma fl_upper:
  assumes "2 powi emin \<le> x"
  shows "fl x \<le> x + x / 2 ^ 53"
  using fl_rel_err [OF assms] by (simp only: abs_le_iff) linarith

lemma fl_ge_1:
  assumes "1 \<le> x"
  shows "1 \<le> fl x"
proof -
  have pos: "0 < x" using assms by simp
  have sp: "2 powi expo x \<le> x"
    using expo_spec [OF pos] by simp
  have e0: "0 \<le> expo x"
    using expo_ge [of 0 x] assms by simp
  then have m: "max (expo \<bar>x\<bar>) emin = expo x"
    using pos by (simp add: emin_def)
  have u: "ulp x = 2 powi (expo x - 52)"
    by (simp only: ulp_def m)
  have "2 powi expo x / ulp x \<le> x / ulp x"
    using sp ulp_pos [of x] by (intro divide_right_mono) simp_all
  moreover have "2 powi expo x / ulp x = of_int (2 ^ 52)"
    unfolding u by (simp add: power_int_diff)
  ultimately have "of_int (2 ^ 52) \<le> x / ulp x"
    by simp
  then have "2 ^ 52 \<le> round_even (x / ulp x)"
    by (rule round_even_ge)
  then have "of_int (2 ^ 52) \<le> (of_int (round_even (x / ulp x)) :: rat)"
    by (simp only: of_int_le_iff)
  then have "of_int (2 ^ 52) * ulp x \<le> fl x"
    unfolding fl_def using ulp_pos [of x] by (intro mult_right_mono) simp_all
  moreover have "of_int (2 ^ 52) * ulp x = 2 powi expo x"
    unfolding u by (simp add: power_int_diff)
  moreover have "(1::rat) \<le> 2 powi expo x"
    using e0 by simp
  ultimately show ?thesis
    by simp
qed

lemma fl_of_nat:
  assumes "n < 2 ^ 53"
  shows "fl (of_nat n) = of_nat n"
proof (cases "n = 0")
  case True
  then show ?thesis by (simp add: fl_0)
next
  case False
  let ?x = "rat_of_nat n"
  have pos: "0 < ?x" using False by simp
  have "?x < of_nat (2 ^ 53)"
    using assms by (simp only: of_nat_less_iff)
  then have "?x < 2 powi 53"
    by simp
  then have hi: "expo ?x < 53"
    using pos by (rule expo_less [rotated])
  have "2 powi 0 \<le> ?x" using False by simp
  then have lo: "0 \<le> expo ?x"
    by (rule expo_ge)
  define k where "k = nat (52 - expo ?x)"
  have ke: "expo ?x - 52 = - int k"
    using hi by (simp add: k_def)
  have m: "max (expo \<bar>?x\<bar>) emin = expo ?x"
    using lo by (simp add: emin_def)
  have u: "ulp ?x = 1 / 2 ^ k"
    unfolding ulp_def m ke by (simp add: power_int_minus_divide)
  have q: "?x / (1 / 2 ^ k) = of_int (int (n * 2 ^ k))"
    by simp
  show ?thesis
    unfolding fl_def u q round_even_of_int by simp
qed


lemma round_even_eqI:
  assumes "\<bar>y - of_int k\<bar> < 1 / 2 \<or> \<bar>y - of_int k\<bar> = 1 / 2 \<and> even k"
  shows "round_even y = k"
proof -
  consider (lo) "y < of_int k" | (hi) "of_int k \<le> y" by linarith
  then show ?thesis
  proof cases
    case lo
    then have f: "\<lfloor>y\<rfloor> = k - 1"
      using assms by (intro floor_unique) auto
    show ?thesis
      using assms lo by (auto simp: round_even_def f Let_def)
  next
    case hi
    then have f: "\<lfloor>y\<rfloor> = k"
      using assms by (intro floor_unique) auto
    show ?thesis
      using assms hi by (auto simp: round_even_def f Let_def)
  qed
qed

lemma fl_eqI:
  assumes v: "v = of_int k * 2 powi (e - 52)"
    and lo: "2 powi e \<le> \<bar>x\<bar>" and hi: "\<bar>x\<bar> < 2 powi (e + 1)" and e: "emin \<le> e"
    and near: "\<bar>x - v\<bar> < 2 powi (e - 52) / 2 \<or> \<bar>x - v\<bar> = 2 powi (e - 52) / 2 \<and> even k"
  shows "fl x = v"
proof -
  have pos: "0 < \<bar>x\<bar>"
    using lo by (rule less_le_trans [rotated]) simp
  have "e \<le> expo \<bar>x\<bar>"
    using lo by (rule expo_ge)
  moreover have "expo \<bar>x\<bar> < e + 1"
    using pos hi by (rule expo_less)
  ultimately have m: "max (expo \<bar>x\<bar>) emin = e"
    using e by simp
  define u :: rat where "u = 2 powi (e - 52)"
  have u: "ulp x = u"
    by (simp only: ulp_def m u_def)
  have upos: "0 < u"
    by (simp add: u_def)
  have d: "\<bar>x / u - of_int k\<bar> = \<bar>x - v\<bar> / u"
  proof -
    have "x / u - of_int k = (x - v) / u"
      using upos by (simp add: v u_def [symmetric] field_simps)
    then show ?thesis
      using upos by (simp add: abs_divide)
  qed
  have "\<bar>x / u - of_int k\<bar> < 1 / 2 \<or> \<bar>x / u - of_int k\<bar> = 1 / 2 \<and> even k"
    using near upos unfolding d u_def [symmetric] by (auto simp: field_simps)
  then have "round_even (x / u) = k"
    by (rule round_even_eqI)
  then show ?thesis
    by (simp add: fl_def u v u_def)
qed

lemma Math_round_eqI:
  assumes "of_int k - 1 / 2 \<le> x" "x < of_int k + 1 / 2"
  shows "Math_round x = k"
  unfolding Math_round_def using assms by (intro floor_unique) simp_all

lemma Math_round_lt:
  assumes "x < of_int k + 1 / 2"
  shows "Math_round x \<le> k"
proof -
  have "x + 1 / 2 < of_int (k + 1)"
    using assms by simp
  then have "\<lfloor>x + 1 / 2\<rfloor> < k + 1"
    by (simp only: floor_less_iff)
  then show ?thesis
    by (simp add: Math_round_def)
qed

lemma Math_round_of_nat: "Math_round (rat_of_nat n) = int n"
  by (rule Math_round_eqI) simp_all

lemma js_num_Num:
  assumes "\<bar>x\<bar> < 2 ^ n" "n \<le> 1023"
  shows "js_num x = Num (fl x)"
proof -
  have "\<bar>fl x - x\<bar> \<le> 2 ^ n / 2 ^ 54"
    using assms(1) by (rule fl_abs_err)
  also have "\<dots> \<le> (2 ^ n :: rat)"
    by (simp add: field_simps)
  finally have "\<bar>fl x\<bar> < 2 ^ n + 2 ^ n"
    using assms(1) by linarith
  then have "\<bar>fl x\<bar> < 2 ^ Suc n"
    by simp
  moreover have "(2::rat) ^ Suc n \<le> 2 ^ 1024"
    using assms(2) by (intro power_increasing) simp_all
  ultimately have "\<bar>fl x\<bar> < 2 ^ 1024"
    by (rule less_le_trans)
  then have "\<not> 2 ^ 1024 \<le> fl x" "\<not> fl x \<le> - (2 ^ 1024)"
    by (simp_all only: abs_less_iff) linarith+
  then show ?thesis
    by (simp only: js_num_def Let_def if_False)
qed

lemma js_num_eqI:
  assumes "fl x = v" "\<bar>v\<bar> < 2 ^ 1024"
  shows "js_num x = Num v"
proof -
  have "\<not> 2 ^ 1024 \<le> fl x" "\<not> fl x \<le> - (2 ^ 1024)"
    using assms(2) unfolding assms(1) by (simp_all only: abs_less_iff) linarith+
  then show ?thesis
    by (simp only: js_num_def Let_def if_False assms(1))
qed

lemma of_nat_less_2p32: "n < 2 ^ 32 \<Longrightarrow> rat_of_nat n < 2 ^ 32"
  using of_nat_less_iff [of n "2 ^ 32", where ?'a = rat] by simp

subsection \<open>Frame sequence\<close>

lemma ease_to_after_eq:
  "ease_to_after i frames =
     frames @ map (\<lambda>k. \<lparr>pct = fl (1 - eased (fl (of_nat k / of_nat slideCount))), delay = 80\<rparr>)
                [i ..< slideCount]"
proof (induction i frames rule: ease_to_after.induct)
  case (1 i frames)
  show ?case
  proof (cases "i < slideCount")
    case True
    then have "[i ..< slideCount] = i # [i + 1 ..< slideCount]"
      by (simp add: upt_conv_Cons)
    with True "1" show ?thesis
      by (subst ease_to_after.simps) (simp add: Let_def)
  next
    case False
    then show ?thesis
      by (subst ease_to_after.simps) simp
  qed
qed

lemma ease_to_before_eq:
  "ease_to_before i frames =
     frames @ map (\<lambda>k. \<lparr>pct = eased (fl (of_nat k / of_nat slideCount)), delay = 80\<rparr>)
                [i ..< slideCount]"
proof (induction i frames rule: ease_to_before.induct)
  case (1 i frames)
  show ?case
  proof (cases "i < slideCount")
    case True
    then have "[i ..< slideCount] = i # [i + 1 ..< slideCount]"
      by (simp add: upt_conv_Cons)
    with True "1" show ?thesis
      by (subst ease_to_before.simps) (simp add: Let_def)
  next
    case False
    then show ?thesis
      by (subst ease_to_before.simps) simp
  qed
qed

lemma build_frames_eq:
  "build_frames =
     [\<lparr>pct = 1, delay = 1000\<rparr>]
     @ map (\<lambda>i. \<lparr>pct = fl (1 - eased (fl (of_nat i / 14))), delay = 80\<rparr>) [1 ..< 14]
     @ [\<lparr>pct = 0, delay = 1000\<rparr>]
     @ map (\<lambda>i. \<lparr>pct = eased (fl (of_nat i / 14)), delay = 80\<rparr>) [1 ..< 14]"
  unfolding build_frames_def Let_def ease_to_after_eq ease_to_before_eq slideCount_def
  by (simp only: append_Nil append_assoc of_nat_numeral)

text \<open>
  The eased value of every step \<open>i / 14\<close> and the position \<open>1 - eased\<close> of the sweep to
  "after", each rounding of the computation certified by its exponent and significand.
\<close>

lemma eased_at_1:
  "eased (fl (1 / 14)) = 5882252574524729 / 576460752303423488"
  "fl (1 - eased (fl (1 / 14))) = 8915289058264043 / 9007199254740992"
proof -
  have t: "fl (1 / 14) = 2573485501354569 / 36028797018963968"
    by (rule fl_eqI [where e = "- 4" and k = "5146971002709138"]) (simp_all add: emin_def)
  have a: "fl (2573485501354569 / 18014398509481984) = 2573485501354569 / 18014398509481984"
    by (rule fl_eqI [where e = "- 3" and k = "5146971002709138"]) (simp_all add: emin_def)
  have b: "fl (6622827625682177362333857175761 / 649037107316853453566312041152512) = 5882252574524729 / 576460752303423488"
    by (rule fl_eqI [where e = "- 7" and k = "5882252574524729"]) (simp_all add: emin_def)
  have p: "fl (570578499728898759 / 576460752303423488) = 8915289058264043 / 9007199254740992"
    by (rule fl_eqI [where e = "- 1" and k = "8915289058264043"]) (simp_all add: emin_def)
  show e: "eased (fl (1 / 14)) = 5882252574524729 / 576460752303423488"
    by (simp add: eased_def Math_pow_2_def t a b)
  show "fl (1 - eased (fl (1 / 14))) = 8915289058264043 / 9007199254740992"
    by (subst e) (simp add: p)
qed

lemma eased_at_2:
  "eased (fl (1 / 7)) = 5882252574524729 / 144115188075855872"
  "fl (1 - eased (fl (1 / 7))) = 2159889617208299 / 2251799813685248"
proof -
  have t: "fl (1 / 7) = 2573485501354569 / 18014398509481984"
    by (rule fl_eqI [where e = "- 3" and k = "5146971002709138"]) (simp_all add: emin_def)
  have a: "fl (2573485501354569 / 9007199254740992) = 2573485501354569 / 9007199254740992"
    by (rule fl_eqI [where e = "- 2" and k = "5146971002709138"]) (simp_all add: emin_def)
  have b: "fl (6622827625682177362333857175761 / 162259276829213363391578010288128) = 5882252574524729 / 144115188075855872"
    by (rule fl_eqI [where e = "- 5" and k = "5882252574524729"]) (simp_all add: emin_def)
  have p: "fl (138232935501331143 / 144115188075855872) = 2159889617208299 / 2251799813685248"
    by (rule fl_eqI [where e = "- 1" and k = "8639558468833196"]) (simp_all add: emin_def)
  show e: "eased (fl (1 / 7)) = 5882252574524729 / 144115188075855872"
    by (simp add: eased_def Math_pow_2_def t a b)
  show "fl (1 - eased (fl (1 / 7))) = 2159889617208299 / 2251799813685248"
    by (subst e) (simp add: p)
qed

lemma eased_at_3:
  "eased (fl (3 / 14)) = 206797942073135 / 2251799813685248"
  "fl (1 - eased (fl (3 / 14))) = 2045001871612113 / 2251799813685248"
proof -
  have t: "fl (3 / 14) = 7720456504063707 / 36028797018963968"
    by (rule fl_eqI [where e = "- 3" and k = "7720456504063707"]) (simp_all add: emin_def)
  have a: "fl (7720456504063707 / 18014398509481984) = 7720456504063707 / 18014398509481984"
    by (rule fl_eqI [where e = "- 2" and k = "7720456504063707"]) (simp_all add: emin_def)
  have b: "fl (59605448631139596261004714581849 / 649037107316853453566312041152512) = 206797942073135 / 2251799813685248"
    by (rule fl_eqI [where e = "- 4" and k = "6617534146340320"]) (simp_all add: emin_def)
  have p: "fl (2045001871612113 / 2251799813685248) = 2045001871612113 / 2251799813685248"
    by (rule fl_eqI [where e = "- 1" and k = "8180007486448452"]) (simp_all add: emin_def)
  show e: "eased (fl (3 / 14)) = 206797942073135 / 2251799813685248"
    by (simp add: eased_def Math_pow_2_def t a b)
  show "fl (1 - eased (fl (3 / 14))) = 2045001871612113 / 2251799813685248"
    by (subst e) (simp add: p)
qed

lemma eased_at_4:
  "eased (fl (2 / 7)) = 5882252574524729 / 36028797018963968"
  "fl (1 - eased (fl (2 / 7))) = 3768318055554905 / 4503599627370496"
proof -
  have t: "fl (2 / 7) = 2573485501354569 / 9007199254740992"
    by (rule fl_eqI [where e = "- 2" and k = "5146971002709138"]) (simp_all add: emin_def)
  have a: "fl (2573485501354569 / 4503599627370496) = 2573485501354569 / 4503599627370496"
    by (rule fl_eqI [where e = "- 1" and k = "5146971002709138"]) (simp_all add: emin_def)
  have b: "fl (6622827625682177362333857175761 / 40564819207303340847894502572032) = 5882252574524729 / 36028797018963968"
    by (rule fl_eqI [where e = "- 3" and k = "5882252574524729"]) (simp_all add: emin_def)
  have p: "fl (30146544444439239 / 36028797018963968) = 3768318055554905 / 4503599627370496"
    by (rule fl_eqI [where e = "- 1" and k = "7536636111109810"]) (simp_all add: emin_def)
  show e: "eased (fl (2 / 7)) = 5882252574524729 / 36028797018963968"
    by (simp add: eased_def Math_pow_2_def t a b)
  show "fl (1 - eased (fl (2 / 7))) = 3768318055554905 / 4503599627370496"
    by (subst e) (simp add: p)
qed

lemma eased_at_5:
  "eased (fl (5 / 14)) = 4595509823847445 / 18014398509481984"
  "fl (1 - eased (fl (5 / 14))) = 3354722171408635 / 4503599627370496"
proof -
  have t: "fl (5 / 14) = 6433713753386423 / 18014398509481984"
    by (rule fl_eqI [where e = "- 2" and k = "6433713753386423"]) (simp_all add: emin_def)
  have a: "fl (6433713753386423 / 9007199254740992) = 6433713753386423 / 9007199254740992"
    by (rule fl_eqI [where e = "- 1" and k = "6433713753386423"]) (simp_all add: emin_def)
  have b: "fl (41392672660513614948300360734929 / 162259276829213363391578010288128) = 4595509823847445 / 18014398509481984"
    by (rule fl_eqI [where e = "- 2" and k = "4595509823847445"]) (simp_all add: emin_def)
  have p: "fl (13418888685634539 / 18014398509481984) = 3354722171408635 / 4503599627370496"
    by (rule fl_eqI [where e = "- 1" and k = "6709444342817270"]) (simp_all add: emin_def)
  show e: "eased (fl (5 / 14)) = 4595509823847445 / 18014398509481984"
    by (simp add: eased_def Math_pow_2_def t a b)
  show "fl (1 - eased (fl (5 / 14))) = 3354722171408635 / 4503599627370496"
    by (subst e) (simp add: p)
qed

lemma eased_at_6:
  "eased (fl (3 / 7)) = 206797942073135 / 562949953421312"
  "fl (1 - eased (fl (3 / 7))) = 356152011348177 / 562949953421312"
proof -
  have t: "fl (3 / 7) = 7720456504063707 / 18014398509481984"
    by (rule fl_eqI [where e = "- 2" and k = "7720456504063707"]) (simp_all add: emin_def)
  have a: "fl (7720456504063707 / 9007199254740992) = 7720456504063707 / 9007199254740992"
    by (rule fl_eqI [where e = "- 1" and k = "7720456504063707"]) (simp_all add: emin_def)
  have b: "fl (59605448631139596261004714581849 / 162259276829213363391578010288128) = 206797942073135 / 562949953421312"
    by (rule fl_eqI [where e = "- 2" and k = "6617534146340320"]) (simp_all add: emin_def)
  have p: "fl (356152011348177 / 562949953421312) = 356152011348177 / 562949953421312"
    by (rule fl_eqI [where e = "- 1" and k = "5698432181570832"]) (simp_all add: emin_def)
  show e: "eased (fl (3 / 7)) = 206797942073135 / 562949953421312"
    by (simp add: eased_def Math_pow_2_def t a b)
  show "fl (1 - eased (fl (3 / 7))) = 356152011348177 / 562949953421312"
    by (subst e) (simp add: p)
qed

lemma eased_at_7:
  "eased (fl (1 / 2)) = 1 / 2"
  "fl (1 - eased (fl (1 / 2))) = 1 / 2"
proof -
  have t: "fl (1 / 2) = 1 / 2"
    by (rule fl_eqI [where e = "- 1" and k = "4503599627370496"]) (simp_all add: emin_def)
  have a: "fl (- 1) = - 1"
    by (rule fl_eqI [where e = "0" and k = "- 4503599627370496"]) (simp_all add: emin_def)
  have y: "fl (1) = 1"
    by (rule fl_eqI [where e = "0" and k = "4503599627370496"]) (simp_all add: emin_def)
  have s: "fl (1) = 1"
    by (rule fl_eqI [where e = "0" and k = "4503599627370496"]) (simp_all add: emin_def)
  have h: "fl (1 / 2) = 1 / 2"
    by (rule fl_eqI [where e = "- 1" and k = "4503599627370496"]) (simp_all add: emin_def)
  have b: "fl (1 / 2) = 1 / 2"
    by (rule fl_eqI [where e = "- 1" and k = "4503599627370496"]) (simp_all add: emin_def)
  have p: "fl (1 / 2) = 1 / 2"
    by (rule fl_eqI [where e = "- 1" and k = "4503599627370496"]) (simp_all add: emin_def)
  show e: "eased (fl (1 / 2)) = 1 / 2"
    by (simp add: eased_def Math_pow_2_def t a y s h b)
  show "fl (1 - eased (fl (1 / 2))) = 1 / 2"
    by (subst e) (simp add: p)
qed

lemma eased_at_8:
  "eased (fl (4 / 7)) = 5698432181570831 / 9007199254740992"
  "fl (1 - eased (fl (4 / 7))) = 3308767073170161 / 9007199254740992"
proof -
  have t: "fl (4 / 7) = 2573485501354569 / 4503599627370496"
    by (rule fl_eqI [where e = "- 1" and k = "5146971002709138"]) (simp_all add: emin_def)
  have a: "fl (- (2573485501354569 / 2251799813685248)) = - (2573485501354569 / 2251799813685248)"
    by (rule fl_eqI [where e = "0" and k = "- 5146971002709138"]) (simp_all add: emin_def)
  have y: "fl (1930114126015927 / 2251799813685248) = 1930114126015927 / 2251799813685248"
    by (rule fl_eqI [where e = "- 1" and k = "7720456504063708"]) (simp_all add: emin_def)
  have s: "fl (3725340539446225731369857669329 / 5070602400912917605986812821504) = 3308767073170161 / 4503599627370496"
    by (rule fl_eqI [where e = "- 1" and k = "6617534146340322"]) (simp_all add: emin_def)
  have h: "fl (3308767073170161 / 9007199254740992) = 3308767073170161 / 9007199254740992"
    by (rule fl_eqI [where e = "- 2" and k = "6617534146340322"]) (simp_all add: emin_def)
  have b: "fl (5698432181570831 / 9007199254740992) = 5698432181570831 / 9007199254740992"
    by (rule fl_eqI [where e = "- 1" and k = "5698432181570831"]) (simp_all add: emin_def)
  have p: "fl (3308767073170161 / 9007199254740992) = 3308767073170161 / 9007199254740992"
    by (rule fl_eqI [where e = "- 2" and k = "6617534146340322"]) (simp_all add: emin_def)
  show e: "eased (fl (4 / 7)) = 5698432181570831 / 9007199254740992"
    by (simp add: eased_def Math_pow_2_def t a y s h b)
  show "fl (1 - eased (fl (4 / 7))) = 3308767073170161 / 9007199254740992"
    by (subst e) (simp add: p)
qed

lemma eased_at_9:
  "eased (fl (9 / 14)) = 3354722171408635 / 4503599627370496"
  "fl (1 - eased (fl (9 / 14))) = 1148877455961861 / 4503599627370496"
proof -
  have t: "fl (9 / 14) = 5790342378047781 / 9007199254740992"
    by (rule fl_eqI [where e = "- 1" and k = "5790342378047781"]) (simp_all add: emin_def)
  have a: "fl (- (5790342378047781 / 4503599627370496)) = - (5790342378047781 / 4503599627370496)"
    by (rule fl_eqI [where e = "0" and k = "- 5790342378047781"]) (simp_all add: emin_def)
  have y: "fl (3216856876693211 / 4503599627370496) = 3216856876693211 / 4503599627370496"
    by (rule fl_eqI [where e = "- 1" and k = "6433713753386422"]) (simp_all add: emin_def)
  have s: "fl (10348168165128400520218213490521 / 20282409603651670423947251286016) = 1148877455961861 / 2251799813685248"
    by (rule fl_eqI [where e = "- 1" and k = "4595509823847444"]) (simp_all add: emin_def)
  have h: "fl (1148877455961861 / 4503599627370496) = 1148877455961861 / 4503599627370496"
    by (rule fl_eqI [where e = "- 2" and k = "4595509823847444"]) (simp_all add: emin_def)
  have b: "fl (3354722171408635 / 4503599627370496) = 3354722171408635 / 4503599627370496"
    by (rule fl_eqI [where e = "- 1" and k = "6709444342817270"]) (simp_all add: emin_def)
  have p: "fl (1148877455961861 / 4503599627370496) = 1148877455961861 / 4503599627370496"
    by (rule fl_eqI [where e = "- 2" and k = "4595509823847444"]) (simp_all add: emin_def)
  show e: "eased (fl (9 / 14)) = 3354722171408635 / 4503599627370496"
    by (simp add: eased_def Math_pow_2_def t a y s h b)
  show "fl (1 - eased (fl (9 / 14))) = 1148877455961861 / 4503599627370496"
    by (subst e) (simp add: p)
qed

lemma eased_at_10:
  "eased (fl (5 / 7)) = 3768318055554905 / 4503599627370496"
  "fl (1 - eased (fl (5 / 7))) = 735281571815591 / 4503599627370496"
proof -
  have t: "fl (5 / 7) = 6433713753386423 / 9007199254740992"
    by (rule fl_eqI [where e = "- 1" and k = "6433713753386423"]) (simp_all add: emin_def)
  have a: "fl (- (6433713753386423 / 4503599627370496)) = - (6433713753386423 / 4503599627370496)"
    by (rule fl_eqI [where e = "0" and k = "- 6433713753386423"]) (simp_all add: emin_def)
  have y: "fl (2573485501354569 / 4503599627370496) = 2573485501354569 / 4503599627370496"
    by (rule fl_eqI [where e = "- 1" and k = "5146971002709138"]) (simp_all add: emin_def)
  have s: "fl (6622827625682177362333857175761 / 20282409603651670423947251286016) = 5882252574524729 / 18014398509481984"
    by (rule fl_eqI [where e = "- 2" and k = "5882252574524729"]) (simp_all add: emin_def)
  have h: "fl (5882252574524729 / 36028797018963968) = 5882252574524729 / 36028797018963968"
    by (rule fl_eqI [where e = "- 3" and k = "5882252574524729"]) (simp_all add: emin_def)
  have b: "fl (30146544444439239 / 36028797018963968) = 3768318055554905 / 4503599627370496"
    by (rule fl_eqI [where e = "- 1" and k = "7536636111109810"]) (simp_all add: emin_def)
  have p: "fl (735281571815591 / 4503599627370496) = 735281571815591 / 4503599627370496"
    by (rule fl_eqI [where e = "- 3" and k = "5882252574524728"]) (simp_all add: emin_def)
  show e: "eased (fl (5 / 7)) = 3768318055554905 / 4503599627370496"
    by (simp add: eased_def Math_pow_2_def t a y s h b)
  show "fl (1 - eased (fl (5 / 7))) = 735281571815591 / 4503599627370496"
    by (subst e) (simp add: p)
qed

lemma eased_at_11:
  "eased (fl (11 / 14)) = 2045001871612113 / 2251799813685248"
  "fl (1 - eased (fl (11 / 14))) = 206797942073135 / 2251799813685248"
proof -
  have t: "fl (11 / 14) = 7077085128725065 / 9007199254740992"
    by (rule fl_eqI [where e = "- 1" and k = "7077085128725065"]) (simp_all add: emin_def)
  have a: "fl (- (7077085128725065 / 4503599627370496)) = - (7077085128725065 / 4503599627370496)"
    by (rule fl_eqI [where e = "0" and k = "- 7077085128725065"]) (simp_all add: emin_def)
  have y: "fl (1930114126015927 / 4503599627370496) = 1930114126015927 / 4503599627370496"
    by (rule fl_eqI [where e = "- 2" and k = "7720456504063708"]) (simp_all add: emin_def)
  have s: "fl (3725340539446225731369857669329 / 20282409603651670423947251286016) = 3308767073170161 / 18014398509481984"
    by (rule fl_eqI [where e = "- 3" and k = "6617534146340322"]) (simp_all add: emin_def)
  have h: "fl (3308767073170161 / 36028797018963968) = 3308767073170161 / 36028797018963968"
    by (rule fl_eqI [where e = "- 4" and k = "6617534146340322"]) (simp_all add: emin_def)
  have b: "fl (32720029945793807 / 36028797018963968) = 2045001871612113 / 2251799813685248"
    by (rule fl_eqI [where e = "- 1" and k = "8180007486448452"]) (simp_all add: emin_def)
  have p: "fl (206797942073135 / 2251799813685248) = 206797942073135 / 2251799813685248"
    by (rule fl_eqI [where e = "- 4" and k = "6617534146340320"]) (simp_all add: emin_def)
  show e: "eased (fl (11 / 14)) = 2045001871612113 / 2251799813685248"
    by (simp add: eased_def Math_pow_2_def t a y s h b)
  show "fl (1 - eased (fl (11 / 14))) = 206797942073135 / 2251799813685248"
    by (subst e) (simp add: p)
qed

lemma eased_at_12:
  "eased (fl (6 / 7)) = 2159889617208299 / 2251799813685248"
  "fl (1 - eased (fl (6 / 7))) = 91910196476949 / 2251799813685248"
proof -
  have t: "fl (6 / 7) = 7720456504063707 / 9007199254740992"
    by (rule fl_eqI [where e = "- 1" and k = "7720456504063707"]) (simp_all add: emin_def)
  have a: "fl (- (7720456504063707 / 4503599627370496)) = - (7720456504063707 / 4503599627370496)"
    by (rule fl_eqI [where e = "0" and k = "- 7720456504063707"]) (simp_all add: emin_def)
  have y: "fl (1286742750677285 / 4503599627370496) = 1286742750677285 / 4503599627370496"
    by (rule fl_eqI [where e = "- 2" and k = "5146971002709140"]) (simp_all add: emin_def)
  have s: "fl (1655706906420545627326214971225 / 20282409603651670423947251286016) = 5882252574524733 / 72057594037927936"
    by (rule fl_eqI [where e = "- 4" and k = "5882252574524733"]) (simp_all add: emin_def)
  have h: "fl (5882252574524733 / 144115188075855872) = 5882252574524733 / 144115188075855872"
    by (rule fl_eqI [where e = "- 5" and k = "5882252574524733"]) (simp_all add: emin_def)
  have b: "fl (138232935501331139 / 144115188075855872) = 2159889617208299 / 2251799813685248"
    by (rule fl_eqI [where e = "- 1" and k = "8639558468833196"]) (simp_all add: emin_def)
  have p: "fl (91910196476949 / 2251799813685248) = 91910196476949 / 2251799813685248"
    by (rule fl_eqI [where e = "- 5" and k = "5882252574524736"]) (simp_all add: emin_def)
  show e: "eased (fl (6 / 7)) = 2159889617208299 / 2251799813685248"
    by (simp add: eased_def Math_pow_2_def t a y s h b)
  show "fl (1 - eased (fl (6 / 7))) = 91910196476949 / 2251799813685248"
    by (subst e) (simp add: p)
qed

lemma eased_at_13:
  "eased (fl (13 / 14)) = 8915289058264043 / 9007199254740992"
  "fl (1 - eased (fl (13 / 14))) = 91910196476949 / 9007199254740992"
proof -
  have t: "fl (13 / 14) = 4181913939701175 / 4503599627370496"
    by (rule fl_eqI [where e = "- 1" and k = "8363827879402350"]) (simp_all add: emin_def)
  have a: "fl (- (4181913939701175 / 2251799813685248)) = - (4181913939701175 / 2251799813685248)"
    by (rule fl_eqI [where e = "0" and k = "- 8363827879402350"]) (simp_all add: emin_def)
  have y: "fl (321685687669321 / 2251799813685248) = 321685687669321 / 2251799813685248"
    by (rule fl_eqI [where e = "- 3" and k = "5146971002709136"]) (simp_all add: emin_def)
  have s: "fl (103481681651283940865044601041 / 5070602400912917605986812821504) = 1470563143631181 / 72057594037927936"
    by (rule fl_eqI [where e = "- 6" and k = "5882252574524724"]) (simp_all add: emin_def)
  have h: "fl (1470563143631181 / 144115188075855872) = 1470563143631181 / 144115188075855872"
    by (rule fl_eqI [where e = "- 7" and k = "5882252574524724"]) (simp_all add: emin_def)
  have b: "fl (142644624932224691 / 144115188075855872) = 8915289058264043 / 9007199254740992"
    by (rule fl_eqI [where e = "- 1" and k = "8915289058264043"]) (simp_all add: emin_def)
  have p: "fl (91910196476949 / 9007199254740992) = 91910196476949 / 9007199254740992"
    by (rule fl_eqI [where e = "- 7" and k = "5882252574524736"]) (simp_all add: emin_def)
  show e: "eased (fl (13 / 14)) = 8915289058264043 / 9007199254740992"
    by (simp add: eased_def Math_pow_2_def t a y s h b)
  show "fl (1 - eased (fl (13 / 14))) = 91910196476949 / 9007199254740992"
    by (subst e) (simp add: p)
qed

lemmas eased_values =
  eased_at_1(1) eased_at_2(1) eased_at_3(1) eased_at_4(1) eased_at_5(1) eased_at_6(1)
  eased_at_7(1) eased_at_8(1) eased_at_9(1) eased_at_10(1) eased_at_11(1) eased_at_12(1)
  eased_at_13(1)

lemmas swept_values =
  eased_at_1(2) eased_at_2(2) eased_at_3(2) eased_at_4(2) eased_at_5(2) eased_at_6(2)
  eased_at_7(2) eased_at_8(2) eased_at_9(2) eased_at_10(2) eased_at_11(2) eased_at_12(2)
  eased_at_13(2)

lemma sweep_positions:
  "map pct build_frames =
     [
      1,
      8915289058264043 / 9007199254740992,
      2159889617208299 / 2251799813685248,
      2045001871612113 / 2251799813685248,
      3768318055554905 / 4503599627370496,
      3354722171408635 / 4503599627370496,
      356152011348177 / 562949953421312,
      1 / 2,
      3308767073170161 / 9007199254740992,
      1148877455961861 / 4503599627370496,
      735281571815591 / 4503599627370496,
      206797942073135 / 2251799813685248,
      91910196476949 / 2251799813685248,
      91910196476949 / 9007199254740992,
      0,
      5882252574524729 / 576460752303423488,
      5882252574524729 / 144115188075855872,
      206797942073135 / 2251799813685248,
      5882252574524729 / 36028797018963968,
      4595509823847445 / 18014398509481984,
      206797942073135 / 562949953421312,
      1 / 2,
      5698432181570831 / 9007199254740992,
      3354722171408635 / 4503599627370496,
      3768318055554905 / 4503599627370496,
      2045001871612113 / 2251799813685248,
      2159889617208299 / 2251799813685248,
      8915289058264043 / 9007199254740992]"
  unfolding build_frames_eq
  apply (simp add: upt_rec swept_values)
  apply (simp add: eased_values)
  done

lemma eased_near_curve:
  "\<forall>i \<in> set [1 ..< 14].
     \<bar>eased (fl (of_nat i / 14)) - ease_in_out (of_nat i / 14)\<bar> \<le> 1 / 2 ^ 53
     \<and> \<bar>fl (1 - eased (fl (of_nat i / 14))) - (1 - ease_in_out (of_nat i / 14))\<bar> \<le> 1 / 2 ^ 53"
  apply (simp add: upt_rec swept_values)
  apply (simp add: eased_values ease_in_out_def power2_eq_square)
  done

text \<open>
  C1. The specification counts 30 frames, the first and the last with 1000 ms. The
  loops run over \<open>i = 1, \<dots>, 13\<close> only (the end points are the two hold frames), so the
  sequence has \<open>1 + 13 + 1 + 13 = 28\<close> frames: frame 0 holds "before" (\<open>pct = 1\<close>) for
  1000 ms, frames 1 to 13 have \<open>pct = 1 - eased (i / 14)\<close> and 80 ms, frame 14 holds
  "after" (\<open>pct = 0\<close>) for 1000 ms, and frames 15 to 27 have \<open>pct = eased (i / 14)\<close> and
  80 ms. The delays of 1000 ms are those of frames 0 and 14; the last frame has 80 ms.
  The quotient, the eased value and the difference are computed in doubles; the 28
  positions are the doubles listed, and each eased position is within \<open>2^(-53)\<close> of the
  curve of the specification, \<open>2t^2\<close> for \<open>t < 1/2\<close> and \<open>1 - (-2t + 2)^2 / 2\<close> otherwise,
  at \<open>t = i / 14\<close>.
\<close>

theorem frame_sequence_28:
  "build_frames =
     [\<lparr>pct = 1, delay = 1000\<rparr>]
     @ map (\<lambda>i. \<lparr>pct = fl (1 - eased (fl (of_nat i / 14))), delay = 80\<rparr>) [1 ..< 14]
     @ [\<lparr>pct = 0, delay = 1000\<rparr>]
     @ map (\<lambda>i. \<lparr>pct = eased (fl (of_nat i / 14)), delay = 80\<rparr>) [1 ..< 14]
   \<and> length build_frames = 28
   \<and> map delay build_frames = 1000 # replicate 13 80 @ 1000 # replicate 13 80
   \<and> map pct build_frames =
     [
      1,
      8915289058264043 / 9007199254740992,
      2159889617208299 / 2251799813685248,
      2045001871612113 / 2251799813685248,
      3768318055554905 / 4503599627370496,
      3354722171408635 / 4503599627370496,
      356152011348177 / 562949953421312,
      1 / 2,
      3308767073170161 / 9007199254740992,
      1148877455961861 / 4503599627370496,
      735281571815591 / 4503599627370496,
      206797942073135 / 2251799813685248,
      91910196476949 / 2251799813685248,
      91910196476949 / 9007199254740992,
      0,
      5882252574524729 / 576460752303423488,
      5882252574524729 / 144115188075855872,
      206797942073135 / 2251799813685248,
      5882252574524729 / 36028797018963968,
      4595509823847445 / 18014398509481984,
      206797942073135 / 562949953421312,
      1 / 2,
      5698432181570831 / 9007199254740992,
      3354722171408635 / 4503599627370496,
      3768318055554905 / 4503599627370496,
      2045001871612113 / 2251799813685248,
      2159889617208299 / 2251799813685248,
      8915289058264043 / 9007199254740992]
   \<and> (\<forall>i \<in> set [1 ..< 14].
         \<bar>eased (fl (of_nat i / 14)) - ease_in_out (of_nat i / 14)\<bar> \<le> 1 / 2 ^ 53
         \<and> \<bar>fl (1 - eased (fl (of_nat i / 14))) - (1 - ease_in_out (of_nat i / 14))\<bar>
             \<le> 1 / 2 ^ 53)"
proof -
  have l: "length build_frames = 28"
    by (simp add: build_frames_eq)
  have d: "map delay build_frames = 1000 # replicate 13 80 @ 1000 # replicate 13 80"
    by (simp add: build_frames_eq comp_def map_replicate_const)
  show ?thesis
    using build_frames_eq l d sweep_positions eased_near_curve by (intro conjI)
qed

theorem frame_sequence_28_witness:
  "build_frames ! 0 = \<lparr>pct = 1, delay = 1000\<rparr>
   \<and> build_frames ! 14 = \<lparr>pct = 0, delay = 1000\<rparr>
   \<and> length build_frames = 28
   \<and> pct (build_frames ! 9) = 1148877455961861 / 4503599627370496
   \<and> pct (build_frames ! 13) \<noteq> pct (build_frames ! 15)
   \<and> \<bar>eased (fl (9 / 14)) - ease_in_out (9 / 14)\<bar> \<le> 1 / 2 ^ 53"
proof -
  note eq = frame_sequence_28 [THEN conjunct1]
  note len = frame_sequence_28 [THEN conjunct2, THEN conjunct1]
  note ps = frame_sequence_28 [THEN conjunct2, THEN conjunct2, THEN conjunct2, THEN conjunct1]
  note near = frame_sequence_28 [THEN conjunct2, THEN conjunct2, THEN conjunct2, THEN conjunct2]
  have p: "pct (build_frames ! k) = map pct build_frames ! k" if "k < 28" for k
    using that len by simp
  have "build_frames ! 0 = \<lparr>pct = 1, delay = 1000\<rparr>"
    by (subst eq) simp
  moreover have "build_frames ! 14 = \<lparr>pct = 0, delay = 1000\<rparr>"
    by (subst eq) (simp add: nth_append)
  moreover have "pct (build_frames ! 9) = 1148877455961861 / 4503599627370496"
    unfolding p [of 9, simplified] ps by simp
  moreover have "pct (build_frames ! 13) \<noteq> pct (build_frames ! 15)"
    unfolding p [of 13, simplified] p [of 15, simplified] ps by simp
  moreover have "\<bar>eased (fl (9 / 14)) - ease_in_out (9 / 14)\<bar> \<le> 1 / 2 ^ 53"
    using near [THEN bspec, of 9] by simp
  ultimately show ?thesis
    using len by (intro conjI)
qed

theorem frame_sequence_not_30:
  "length build_frames \<noteq> 30 \<and> delay (last build_frames) \<noteq> 1000"
  by (simp add: build_frames_eq last_map)

subsection \<open>Frame capture\<close>

text \<open>
  C3. The specification lets a source with a zero dimension make the capture fail with
  \<open>CaptureError\<close>. \<^verbatim>\<open>captureFrame\<close> has no check and no failure: for every source it
  sizes the canvas to the source's current \<open>videoWidth\<close> by \<open>videoHeight\<close>, draws the
  source exactly once over that size, and returns the encoding of the canvas; for a source
  with a zero dimension this is the encoding of a canvas without pixels (\<open>data:,\<close>), not an
  error.
\<close>

theorem captureFrame_returns:
  "captureFrame v q = Inr (toDataURL (captureFrame_canvas v) (str ''image/jpeg'') q)
   \<and> canvas_width (captureFrame_canvas v) = of_nat (videoWidth v)
   \<and> canvas_height (captureFrame_canvas v) = of_nat (videoHeight v)
   \<and> calls (captureFrame_canvas v) =
       [DrawVideoScaled v 0 0 (of_nat (videoWidth v)) (of_nat (videoHeight v))]
   \<and> (captureFrame v q = Inr DataEmpty \<longleftrightarrow> videoWidth v = 0 \<or> videoHeight v = 0)"
  by (simp add: captureFrame_def captureFrame_canvas_def Let_def toDataURL_def)

theorem captureFrame_returns_witness:
  "calls (captureFrame_canvas \<lparr>videoWidth = 1920, videoHeight = 1080\<rparr>) =
     [DrawVideoScaled \<lparr>videoWidth = 1920, videoHeight = 1080\<rparr> 0 0 1920 1080]
   \<and> captureFrame \<lparr>videoWidth = 1920, videoHeight = 1080\<rparr> (85 / 100) \<noteq> Inr DataEmpty"
  using captureFrame_returns [of "\<lparr>videoWidth = 1920, videoHeight = 1080\<rparr>" "85 / 100"]
  by (simp add: toDataURL_def)

theorem captureFrame_zero_size_no_error:
  "captureFrame \<lparr>videoWidth = 0, videoHeight = 0\<rparr> (85 / 100) = Inr DataEmpty
   \<and> \<not> isl (captureFrame \<lparr>videoWidth = 0, videoHeight = 0\<rparr> (85 / 100))"
  by (simp add: captureFrame_def captureFrame_canvas_def Let_def toDataURL_def)

subsection \<open>Slider frames\<close>





subsection \<open>Side-by-side canvas\<close>

lemma trim_empty_iff: "trim s = [] \<longleftrightarrow> (\<forall>c\<in>set s. is_white_space c)"
proof -
  have "trim s = [] \<longleftrightarrow> (\<forall>c\<in>set (dropWhile is_white_space s). is_white_space c)"
    by (simp add: trim_def dropWhile_eq_Nil_conv)
  also have "\<dots> \<longleftrightarrow> dropWhile is_white_space s = []"
  proof
    assume all: "\<forall>c\<in>set (dropWhile is_white_space s). is_white_space c"
    show "dropWhile is_white_space s = []"
    proof (rule ccontr)
      assume ne: "dropWhile is_white_space s \<noteq> []"
      then have "\<not> is_white_space (hd (dropWhile is_white_space s))"
        by (rule hd_dropWhile)
      moreover from ne have "hd (dropWhile is_white_space s) \<in> set (dropWhile is_white_space s)"
        by simp
      ultimately show False
        using all by blast
    qed
  next
    assume e: "dropWhile is_white_space s = []"
    show "\<forall>c\<in>set (dropWhile is_white_space s). is_white_space c"
      unfolding e by simp
  qed
  also have "\<dots> \<longleftrightarrow> (\<forall>c\<in>set s. is_white_space c)"
    by (simp add: dropWhile_eq_Nil_conv)
  finally show ?thesis .
qed

lemma side_by_side_width:
  "canvas_width (createSideBySide_canvas P b a opts) =
     2 * of_nat (max (width b) (width a)) + 4"
  by (simp add: createSideBySide_canvas_def Let_def divider_def)

lemma side_by_side_height:
  "canvas_height (createSideBySide_canvas P b a opts) =
     of_nat (max (height b) (height a)) +
     (if trim (case watermark opts of None \<Rightarrow> [] | Some s \<Rightarrow> s) = [] then 0
      else max 36 (of_int \<lfloor>(4 / 100) * rat_of_nat (max (height b) (height a))\<rfloor>))"
  by (simp add: createSideBySide_canvas_def Let_def watermarkH_def Math_floor_def mult.commute)

text \<open>
  C4. The canvas of \<^verbatim>\<open>createSideBySide\<close> is \<open>2 * max(before.width, after.width) + 4\<close>
  wide and \<open>max(before.height, after.height) + W\<close> tall, where \<open>W = 0\<close> when the trimmed
  watermark is empty and \<open>W = max(36, floor(0.04 * h))\<close> otherwise; the trimmed watermark is
  empty exactly when the watermark consists of white space only (or is absent).
\<close>

theorem side_by_side_canvas_size:
  "canvas_width (createSideBySide_canvas P b a opts) =
     2 * of_nat (max (width b) (width a)) + 4
   \<and> canvas_height (createSideBySide_canvas P b a opts) =
       of_nat (max (height b) (height a)) +
       (if trim (case watermark opts of None \<Rightarrow> [] | Some s \<Rightarrow> s) = [] then 0
        else max 36 (of_int \<lfloor>(4 / 100) * rat_of_nat (max (height b) (height a))\<rfloor>))
   \<and> (trim (case watermark opts of None \<Rightarrow> [] | Some s \<Rightarrow> s) = [] \<longleftrightarrow>
        (\<forall>c\<in>set (case watermark opts of None \<Rightarrow> [] | Some s \<Rightarrow> s). is_white_space c))"
  using side_by_side_width side_by_side_height trim_empty_iff by blast

theorem side_by_side_canvas_size_witness:
  "canvas_width (createSideBySide_canvas example_platform
      \<lparr>src = [], width = 800, height = 600\<rparr> \<lparr>src = [], width = 800, height = 600\<rparr>
      \<lparr>quality = None, watermark = Some (str ''  ''), beforeDate = None, afterDate = None,
       showDates = None\<rparr>) = 1604
   \<and> canvas_height (createSideBySide_canvas example_platform
      \<lparr>src = [], width = 800, height = 600\<rparr> \<lparr>src = [], width = 800, height = 600\<rparr>
      \<lparr>quality = None, watermark = Some (str ''  ''), beforeDate = None, afterDate = None,
       showDates = None\<rparr>) = 600
   \<and> canvas_height (createSideBySide_canvas example_platform
      \<lparr>src = [], width = 800, height = 600\<rparr> \<lparr>src = [], width = 800, height = 600\<rparr>
      \<lparr>quality = None, watermark = Some (str ''Acme''), beforeDate = None, afterDate = None,
       showDates = None\<rparr>) = 636"
proof -
  have ws: "\<forall>c\<in>set (str ''  ''). is_white_space c"
    by (simp add: str_def is_white_space_def)
  have acme: "\<not> (\<forall>c\<in>set (str ''Acme''). is_white_space c)"
    by (simp add: str_def is_white_space_def)
  have fl: "\<lfloor>(4 / 100) * rat_of_nat 600\<rfloor> = 24"
    by (simp add: floor_eq_iff)
  show ?thesis
    using ws acme fl
      side_by_side_canvas_size [of example_platform
        "\<lparr>src = [], width = 800, height = 600\<rparr>" "\<lparr>src = [], width = 800, height = 600\<rparr>"
        "\<lparr>quality = None, watermark = Some (str ''  ''), beforeDate = None, afterDate = None,
          showDates = None\<rparr>"]
      side_by_side_canvas_size [of example_platform
        "\<lparr>src = [], width = 800, height = 600\<rparr>" "\<lparr>src = [], width = 800, height = 600\<rparr>"
        "\<lparr>quality = None, watermark = Some (str ''Acme''), beforeDate = None, afterDate = None,
          showDates = None\<rparr>"]
    by simp
qed

lemma side_by_side_draws:
  "filter is_DrawImage (calls (createSideBySide_canvas P b a opts)) =
     [DrawImage b ((of_nat (max (width b) (width a)) - of_nat (width b)) / 2)
                  ((of_nat (max (height b) (height a)) - of_nat (height b)) / 2),
      DrawImage a (of_nat (max (width b) (width a)) + 4
                   + (of_nat (max (width b) (width a)) - of_nat (width a)) / 2)
                  ((of_nat (max (height b) (height a)) - of_nat (height a)) / 2)]"
  by (simp add: createSideBySide_canvas_def Let_def divider_def)

lemma centred_half: "len \<le> hi - lo \<Longrightarrow> centred lo hi (lo + (hi - lo - len) / 2) len"
  by (simp add: centred_def field_simps)

text \<open>
  C8. With \<open>w\<close> and \<open>h\<close> the larger width and height, the "before" image is drawn at
  \<open>((w - before.width) / 2, (h - before.height) / 2)\<close> and the "after" image at
  \<open>(w + 4 + (w - after.width) / 2, (h - after.height) / 2)\<close>: each lies inside its half
  (\<open>0 .. w\<close> and \<open>w + 4 .. 2w + 4\<close> across, \<open>0 .. h\<close> down) with equal margins on both
  sides, across and down.
\<close>

theorem side_by_side_centred:
  "(let w = of_nat (max (width b) (width a));
        h = of_nat (max (height b) (height a));
        bx = (w - of_nat (width b)) / 2;
        by = (h - of_nat (height b)) / 2;
        ax = w + 4 + (w - of_nat (width a)) / 2;
        ay = (h - of_nat (height a)) / 2
    in filter is_DrawImage (calls (createSideBySide_canvas P b a opts)) =
         [DrawImage b bx by, DrawImage a ax ay]
       \<and> centred 0 w bx (of_nat (width b)) \<and> centred 0 h by (of_nat (height b))
       \<and> centred (w + 4) (2 * w + 4) ax (of_nat (width a))
       \<and> centred 0 h ay (of_nat (height a)))"
proof -
  have "centred 0 (of_nat (max (width b) (width a)))
          ((of_nat (max (width b) (width a)) - of_nat (width b)) / 2) (of_nat (width b))"
    using centred_half [of "of_nat (width b)" "of_nat (max (width b) (width a))" 0]
    by simp
  moreover have "centred 0 (of_nat (max (height b) (height a)))
          ((of_nat (max (height b) (height a)) - of_nat (height b)) / 2) (of_nat (height b))"
    using centred_half [of "of_nat (height b)" "of_nat (max (height b) (height a))" 0]
    by simp
  moreover have "centred (of_nat (max (width b) (width a)) + 4)
          (2 * of_nat (max (width b) (width a)) + 4)
          (of_nat (max (width b) (width a)) + 4
           + (of_nat (max (width b) (width a)) - of_nat (width a)) / 2) (of_nat (width a))"
    using centred_half [of "of_nat (width a)" "2 * of_nat (max (width b) (width a)) + 4"
        "of_nat (max (width b) (width a)) + 4"]
    by simp
  moreover have "centred 0 (of_nat (max (height b) (height a)))
          ((of_nat (max (height b) (height a)) - of_nat (height a)) / 2) (of_nat (height a))"
    using centred_half [of "of_nat (height a)" "of_nat (max (height b) (height a))" 0]
    by simp
  ultimately show ?thesis
    unfolding Let_def using side_by_side_draws [of P b a opts] by blast
qed

theorem side_by_side_centred_witness:
  "filter is_DrawImage (calls (createSideBySide_canvas example_platform
      \<lparr>src = [], width = 800, height = 600\<rparr> \<lparr>src = [], width = 400, height = 600\<rparr>
      \<lparr>quality = None, watermark = None, beforeDate = None, afterDate = None,
       showDates = None\<rparr>)) =
     [DrawImage \<lparr>src = [], width = 800, height = 600\<rparr> 0 0,
      DrawImage \<lparr>src = [], width = 400, height = 600\<rparr> (804 + 200) 0]
   \<and> centred 804 1604 (804 + 200) 400"
  using side_by_side_centred [of "\<lparr>src = [], width = 800, height = 600\<rparr>"
      "\<lparr>src = [], width = 400, height = 600\<rparr>" example_platform
      "\<lparr>quality = None, watermark = None, beforeDate = None, afterDate = None,
        showDates = None\<rparr>"]
  by (simp add: Let_def)

subsection \<open>Resizing\<close>

lemma emin_le_quotient:
  assumes "0 < k" "0 < w" "w < 2 ^ 32"
  shows "2 powi emin \<le> rat_of_nat k / of_nat w"
proof -
  have "(2::rat) powi emin \<le> 2 powi (- 32)"
    by (intro power_int_increasing) (simp_all add: emin_def)
  also have "\<dots> = 1 / 2 ^ 32"
    by (simp add: power_int_minus_divide)
  also have "\<dots> \<le> rat_of_nat k / of_nat w"
    using assms of_nat_less_2p32 [OF assms(3)] by (intro frac_le) simp_all
  finally show ?thesis .
qed

lemma quotient_Num:
  assumes "k < 2 ^ 32" "0 < w"
  shows "js_div (of_nat k) (of_nat w) = Num (fl (rat_of_nat k / of_nat w))"
proof -
  have "rat_of_nat k / of_nat w \<le> of_nat k / 1"
    using assms by (intro frac_le) simp_all
  then have "\<bar>rat_of_nat k / of_nat w\<bar> < 2 ^ 32"
    using of_nat_less_2p32 [OF assms(1)] by simp
  then have "js_num (rat_of_nat k / of_nat w) = Num (fl (rat_of_nat k / of_nat w))"
    by (rule js_num_Num) simp
  then show ?thesis
    using assms by simp
qed

lemma scaled_le:
  assumes k: "0 < k" "k < 2 ^ 32" and w: "0 < w" "w < 2 ^ 32"
    and r: "0 \<le> r" "r \<le> fl (rat_of_nat k / of_nat w)"
  shows "js_round (js_mul (of_nat w) (Num r)) = Num (of_int (Math_round (fl (of_nat w * r))))"
    and "Math_round (fl (of_nat w * r)) \<le> int k"
proof -
  let ?q = "rat_of_nat k / of_nat w"
  have kk: "rat_of_nat k < 4294967296"
    using of_nat_less_2p32 [OF k(2)] by simp
  have wpos: "0 < rat_of_nat w"
    using w by simp
  have "fl ?q \<le> ?q + ?q / 2 ^ 53"
    using emin_le_quotient [OF k(1) w] by (rule fl_upper)
  then have "r \<le> ?q + ?q / 2 ^ 53"
    using r(2) by linarith
  then have "of_nat w * r \<le> of_nat w * (?q + ?q / 2 ^ 53)"
    using wpos by (intro mult_left_mono) simp_all
  also have "\<dots> = of_nat k + of_nat k / 2 ^ 53"
    using wpos by (simp add: field_simps)
  finally have up: "rat_of_nat w * r \<le> of_nat k + of_nat k / 9007199254740992"
    by simp
  have lo: "0 \<le> rat_of_nat w * r"
    using r(1) by simp
  have "rat_of_nat w * r < 2 ^ 33"
    using up kk by simp
  then have small: "\<bar>rat_of_nat w * r\<bar> < 2 ^ 33"
    using lo by simp
  then have "js_num (rat_of_nat w * r) = Num (fl (rat_of_nat w * r))"
    by (rule js_num_Num) simp
  then show "js_round (js_mul (of_nat w) (Num r)) = Num (of_int (Math_round (fl (of_nat w * r))))"
    by simp
  have "\<bar>fl (rat_of_nat w * r) - rat_of_nat w * r\<bar> \<le> 2 ^ 33 / 2 ^ 54"
    using small by (rule fl_abs_err)
  then have "\<bar>fl (rat_of_nat w * r) - rat_of_nat w * r\<bar> \<le> 1 / 2097152"
    by simp
  then have "fl (rat_of_nat w * r) < of_nat k + 1 / 2"
    using up kk by linarith
  then have "fl (rat_of_nat w * r) < of_int (int k) + 1 / 2"
    by simp
  then show "Math_round (fl (of_nat w * r)) \<le> int k"
    by (rule Math_round_lt)
qed

lemma scaled_zero:
  "js_round (js_mul 0 (Num r)) = Num (of_int 0)"
proof -
  have "js_num 0 = Num (fl 0)"
    by (rule js_num_Num [of 0 0]) simp_all
  then show ?thesis
    using Math_round_of_nat [of 0] by (simp add: fl_0)
qed

lemma quotient_nonneg: "0 \<le> fl (rat_of_nat k / of_nat w)"
  by (rule fl_nonneg) simp

lemma resized_bounded:
  assumes m: "m = of_nat k" "0 < k" "k < 2 ^ 32"
    and sz: "width img < 2 ^ 32" "height img < 2 ^ 32"
    and big: "\<not> (of_nat (width img) \<le> m \<and> of_nat (height img) \<le> m)"
  shows "\<exists>a b. js_round (js_mul (of_nat (width img)) (resize_ratio img m)) = Num (of_int a)
           \<and> js_round (js_mul (of_nat (height img)) (resize_ratio img m)) = Num (of_int b)
           \<and> a \<le> int k \<and> b \<le> int k"
proof -
  let ?W = "width img" and ?H = "height img"
  let ?qw = "fl (rat_of_nat k / of_nat ?W)" and ?qh = "fl (rat_of_nat k / of_nat ?H)"
  have mpos: "0 < m"
    using m by simp
  consider (w0) "?W = 0" "0 < ?H" | (h0) "?H = 0" "0 < ?W" | (pos) "0 < ?W" "0 < ?H"
    using big mpos by (cases "?W = 0"; cases "?H = 0") auto
  then show ?thesis
  proof cases
    case w0
    have ratio: "resize_ratio img m = Num ?qh"
      using w0 mpos quotient_Num [OF m(3) w0(2)]
      by (simp add: resize_ratio_def m(1) del: js_div.simps) simp
    note h = scaled_le [OF m(2,3) w0(2) sz(2) quotient_nonneg order_refl]
    show ?thesis
      unfolding ratio using h scaled_zero [of ?qh] w0(1) by (intro exI [of _ 0] exI conjI) auto
  next
    case h0
    have ratio: "resize_ratio img m = Num ?qw"
      using h0 mpos quotient_Num [OF m(3) h0(2)]
      by (simp add: resize_ratio_def m(1) del: js_div.simps) simp
    note w = scaled_le [OF m(2,3) h0(2) sz(1) quotient_nonneg order_refl]
    show ?thesis
      unfolding ratio using w scaled_zero [of ?qw] h0(1) by (intro exI conjI [rotated]) auto
  next
    case pos
    have ratio: "resize_ratio img m = Num (min ?qw ?qh)"
      using quotient_Num [OF m(3) pos(1)] quotient_Num [OF m(3) pos(2)]
      by (simp add: resize_ratio_def m(1) del: js_div.simps)
    have nn: "0 \<le> min ?qw ?qh"
      using quotient_nonneg [of k ?W] quotient_nonneg [of k ?H] by simp
    note w = scaled_le [OF m(2,3) pos(1) sz(1) nn min.cobounded1]
    note h = scaled_le [OF m(2,3) pos(2) sz(2) nn min.cobounded2]
    show ?thesis
      unfolding ratio using w h by (intro exI conjI)
  qed
qed

lemma resize_4000_3000:
  "resizeImage \<lparr>src = [], width = 4000, height = 3000\<rparr> u 1920 q = Resized (Num 1920) (Num 1440) q"
proof -
  have aqw: "js_num (12 / 25) = Num (1080863910568919 / 2251799813685248)"
    by (rule js_num_eqI [OF fl_eqI [where e = "- 2" and k = "8646911284551352"]]) (simp_all add: emin_def)
  have aqh: "js_num (16 / 25) = Num (5764607523034235 / 9007199254740992)"
    by (rule js_num_eqI [OF fl_eqI [where e = "- 1" and k = "5764607523034235"]]) (simp_all add: emin_def)
  have apw: "js_num (135107988821114875 / 70368744177664) = Num (1920)"
    by (rule js_num_eqI [OF fl_eqI [where e = "10" and k = "8444249301319680"]]) (simp_all add: emin_def)
  have aph: "js_num (405323966463344625 / 281474976710656) = Num (1440)"
    by (rule js_num_eqI [OF fl_eqI [where e = "10" and k = "6333186975989760"]]) (simp_all add: emin_def)
  have arw: "Math_round (1920) = 1920"
    by (rule Math_round_eqI) simp_all
  have arh: "Math_round (1440) = 1440"
    by (rule Math_round_eqI) simp_all
  show ?thesis
    by (simp add: resizeImage_def resize_ratio_def Let_def aqw aqh apw aph arw arh)
qed

lemma resize_2816_363:
  "resizeImage \<lparr>src = [], width = 2816, height = 363\<rparr> u 1920 q = Resized (Num 1920) (Num 247) q"
proof -
  have bqw: "js_num (15 / 22) = Num (6141272219141585 / 9007199254740992)"
    by (rule js_num_eqI [OF fl_eqI [where e = "- 1" and k = "6141272219141585"]]) (simp_all add: emin_def)
  have bqh: "js_num (640 / 121) = Num (1488793265246445 / 281474976710656)"
    by (rule js_num_eqI [OF fl_eqI [where e = "2" and k = "5955173060985780"]]) (simp_all add: emin_def)
  have bpw: "js_num (67553994410557435 / 35184372088832) = Num (8444249301319679 / 4398046511104)"
    by (rule js_num_eqI [OF fl_eqI [where e = "10" and k = "8444249301319679"]]) (simp_all add: emin_def)
  have bph: "js_num (2229281815548395355 / 9007199254740992) = Num (8708132091985919 / 35184372088832)"
    by (rule js_num_eqI [OF fl_eqI [where e = "7" and k = "8708132091985919"]]) (simp_all add: emin_def)
  have brw: "Math_round (8444249301319679 / 4398046511104) = 1920"
    by (rule Math_round_eqI) simp_all
  have brh: "Math_round (8708132091985919 / 35184372088832) = 247"
    by (rule Math_round_eqI) simp_all
  show ?thesis
    by (simp add: resizeImage_def resize_ratio_def Let_def bqw bqh bpw bph brw brh)
qed

text \<open>
  C10. When width and height are both at most \<open>maxDimension\<close>, \<^verbatim>\<open>resizeImage\<close> returns
  its argument. Otherwise the new size is \<open>round(width * r)\<close> by \<open>round(height * r)\<close> with
  the one ratio \<open>r = min(maxDimension / width, maxDimension / height)\<close>, the quotients and
  the products computed in doubles; when \<open>maxDimension\<close> is a positive whole number (it and
  the sides of the image below \<open>2^32\<close>) both are whole numbers not above it. (The bound
  does not hold for a fractional \<open>maxDimension\<close>: a picture of 200 by 100 with the limit
  100.7 becomes 101 by 50.)
\<close>

theorem resizeImage_contract:
  "(of_nat (width img) \<le> m \<and> of_nat (height img) \<le> m \<longrightarrow>
      resizeImage img u m q = Unchanged u)
   \<and> (\<not> (of_nat (width img) \<le> m \<and> of_nat (height img) \<le> m) \<longrightarrow>
        resizeImage img u m q =
          Resized (js_round (js_mul (of_nat (width img)) (resize_ratio img m)))
                  (js_round (js_mul (of_nat (height img)) (resize_ratio img m))) q
        \<and> (\<forall>k. m = of_nat k \<and> 0 < k \<and> k < 2 ^ 32
                \<and> width img < 2 ^ 32 \<and> height img < 2 ^ 32 \<longrightarrow>
              (\<exists>a b. resizeImage img u m q = Resized (Num (of_int a)) (Num (of_int b)) q
                     \<and> a \<le> int k \<and> b \<le> int k)))
   \<and> resize_ratio img m =
       Math_min (js_div m (of_nat (width img))) (js_div m (of_nat (height img)))"
proof (intro conjI impI allI)
  assume "of_nat (width img) \<le> m \<and> of_nat (height img) \<le> m"
  then show "resizeImage img u m q = Unchanged u"
    by (simp add: resizeImage_def)
next
  assume big: "\<not> (of_nat (width img) \<le> m \<and> of_nat (height img) \<le> m)"
  then show eq: "resizeImage img u m q =
          Resized (js_round (js_mul (of_nat (width img)) (resize_ratio img m)))
                  (js_round (js_mul (of_nat (height img)) (resize_ratio img m))) q"
    by (simp add: resizeImage_def Let_def)
  fix k
  assume "m = of_nat k \<and> 0 < k \<and> k < 2 ^ 32 \<and> width img < 2 ^ 32 \<and> height img < 2 ^ 32"
  then show "\<exists>a b. resizeImage img u m q = Resized (Num (of_int a)) (Num (of_int b)) q
                     \<and> a \<le> int k \<and> b \<le> int k"
    using resized_bounded [of m k img] big eq by auto
next
  show "resize_ratio img m =
       Math_min (js_div m (of_nat (width img))) (js_div m (of_nat (height img)))"
    by (simp add: resize_ratio_def)
qed

theorem resizeImage_contract_witness:
  "resizeImage \<lparr>src = [], width = 800, height = 600\<rparr> (str ''data:image/jpeg;base64,AA'')
      1920 (85 / 100) = Unchanged (str ''data:image/jpeg;base64,AA'')
   \<and> resizeImage \<lparr>src = [], width = 4000, height = 3000\<rparr> (str ''data:image/jpeg;base64,AA'')
      1920 (85 / 100) = Resized (Num 1920) (Num 1440) (85 / 100)
   \<and> resizeImage \<lparr>src = [], width = 2816, height = 363\<rparr> (str ''data:image/jpeg;base64,AA'')
      1920 (85 / 100) = Resized (Num 1920) (Num 247) (85 / 100)
   \<and> (\<exists>a b. resizeImage \<lparr>src = [], width = 4000, height = 3000\<rparr>
               (str ''data:image/jpeg;base64,AA'') 1920 (85 / 100)
             = Resized (Num (of_int a)) (Num (of_int b)) (85 / 100)
             \<and> a \<le> 1920 \<and> b \<le> 1920)"
proof -
  let ?u = "str ''data:image/jpeg;base64,AA''"
  note small = resizeImage_contract [of "\<lparr>src = [], width = 800, height = 600\<rparr>" 1920
      ?u "85 / 100"]
  note large = resizeImage_contract [of "\<lparr>src = [], width = 4000, height = 3000\<rparr>" 1920
      ?u "85 / 100"]
  note wide = resizeImage_contract [of "\<lparr>src = [], width = 2816, height = 363\<rparr>" 1920
      ?u "85 / 100"]
  have "resizeImage \<lparr>src = [], width = 800, height = 600\<rparr> ?u 1920 (85 / 100) = Unchanged ?u"
    using small by simp
  moreover have "resizeImage \<lparr>src = [], width = 4000, height = 3000\<rparr> ?u 1920 (85 / 100) =
      Resized (js_round (js_mul 4000 (resize_ratio \<lparr>src = [], width = 4000, height = 3000\<rparr> 1920)))
              (js_round (js_mul 3000 (resize_ratio \<lparr>src = [], width = 4000, height = 3000\<rparr> 1920)))
              (85 / 100)"
    using large by simp
  then have l: "resizeImage \<lparr>src = [], width = 4000, height = 3000\<rparr> ?u 1920 (85 / 100) =
      Resized (Num 1920) (Num 1440) (85 / 100)"
    by (simp only: resize_4000_3000)
  moreover have "resizeImage \<lparr>src = [], width = 2816, height = 363\<rparr> ?u 1920 (85 / 100) =
      Resized (js_round (js_mul 2816 (resize_ratio \<lparr>src = [], width = 2816, height = 363\<rparr> 1920)))
              (js_round (js_mul 363 (resize_ratio \<lparr>src = [], width = 2816, height = 363\<rparr> 1920)))
              (85 / 100)"
    using wide by simp
  then have w: "resizeImage \<lparr>src = [], width = 2816, height = 363\<rparr> ?u 1920 (85 / 100) =
      Resized (Num 1920) (Num 247) (85 / 100)"
    by (simp only: resize_2816_363)
  ultimately show ?thesis
    using l w by (intro conjI exI [of _ 1920] exI [of _ 1440]) simp_all
qed

theorem resizeImage_fractional_limit:
  "fl (1007 / 10) = 7086132538690765 / 70368744177664
   \<and> resizeImage \<lparr>src = [], width = 200, height = 100\<rparr> (str ''data:image/jpeg;base64,AA'')
      (7086132538690765 / 70368744177664) (85 / 100) = Resized (Num 101) (Num 50) (85 / 100)
   \<and> \<not> (101 :: rat) \<le> 7086132538690765 / 70368744177664"
proof -
  have m: "fl (1007 / 10) = 7086132538690765 / 70368744177664"
    by (rule fl_eqI [where e = "6" and k = "7086132538690765"]) (simp_all add: emin_def)
  have cqw: "js_num (1417226507738153 / 2814749767106560) = Num (2267562412381045 / 4503599627370496)"
    by (rule js_num_eqI [OF fl_eqI [where e = "- 1" and k = "4535124824762090"]]) (simp_all add: emin_def)
  have cqh: "js_num (1417226507738153 / 1407374883553280) = Num (2267562412381045 / 2251799813685248)"
    by (rule js_num_eqI [OF fl_eqI [where e = "0" and k = "4535124824762090"]]) (simp_all add: emin_def)
  have cpw: "js_num (56689060309526125 / 562949953421312) = Num (3543066269345383 / 35184372088832)"
    by (rule js_num_eqI [OF fl_eqI [where e = "6" and k = "7086132538690766"]]) (simp_all add: emin_def)
  have cph: "js_num (56689060309526125 / 1125899906842624) = Num (3543066269345383 / 70368744177664)"
    by (rule js_num_eqI [OF fl_eqI [where e = "5" and k = "7086132538690766"]]) (simp_all add: emin_def)
  have crw: "Math_round (3543066269345383 / 35184372088832) = 101"
    by (rule Math_round_eqI) simp_all
  have crh: "Math_round (3543066269345383 / 70368744177664) = 50"
    by (rule Math_round_eqI) simp_all
  have "resizeImage \<lparr>src = [], width = 200, height = 100\<rparr> (str ''data:image/jpeg;base64,AA'')
      (7086132538690765 / 70368744177664) (85 / 100) = Resized (Num 101) (Num 50) (85 / 100)"
    by (simp add: resizeImage_def resize_ratio_def Let_def cqw cqh cpw cph crw crh)
  then show ?thesis
    using m by simp
qed

subsection \<open>The standalone HTML slider\<close>

lemma replace_all_append: "replace_all c r (xs @ ys) = replace_all c r xs @ replace_all c r ys"
  by (simp add: replace_all_def)

lemma replace_all_concat: "replace_all c r (concat xss) = concat (map (replace_all c r) xss)"
  by (induction xss) (simp_all add: replace_all_append, simp add: replace_all_def)

lemma replace_all_concat_map:
  "replace_all c r (concat (map f s)) = concat (map (\<lambda>x. replace_all c r (f x)) s)"
  by (simp add: replace_all_concat comp_def)

lemma escape_one:
  \<open>replace_all 0x27 (str ''&#039;'')
       (replace_all 0x22 (str ''&quot;'')
         (replace_all 0x3E (str ''&gt;'')
           (replace_all 0x3C (str ''&lt;'')
             (replace_all 0x26 (str ''&amp;'') [c])))) = escape_unit c\<close>
  by (simp add: replace_all_def escape_unit_def str_def)

lemma escapeHtml_per_unit: "escapeHtml s = concat (map escape_unit s)"
proof -
  have "s = concat (map (\<lambda>c. [c]) s)" by simp
  then have "escapeHtml s = escapeHtml (concat (map (\<lambda>c. [c]) s))" by simp
  also have "\<dots> = concat (map escape_unit s)"
    unfolding escapeHtml_def replace_all_concat_map escape_one ..
  finally show ?thesis .
qed

lemma escape_unit_safe: \<open>set (escape_unit c) \<inter> {0x3C, 0x3E, 0x22, 0x27} = {}\<close>
  by (simp add: escape_unit_def str_def)

lemma escapeHtml_safe: \<open>set (escapeHtml s) \<inter> {0x3C, 0x3E, 0x22, 0x27} = {}\<close>
  using escape_unit_safe by (auto simp: escapeHtml_per_unit)

lemma join_lines_last: "ls \<noteq> [] \<Longrightarrow> \<exists>pre. join_lines ls = pre @ last ls"
proof (induction ls rule: join_lines.induct)
  case 1
  then show ?case by simp
next
  case (2 l)
  show ?case by simp
next
  case (3 l v va)
  then obtain pre where "join_lines (v # va) = pre @ last (v # va)" by auto
  then have "join_lines (l # v # va) = (l @ [0x0A] @ pre) @ last (l # v # va)" by simp
  then show ?case by blast
qed

lemma join_lines_hd: "ls \<noteq> [] \<Longrightarrow> \<exists>post. join_lines ls = hd ls @ post"
  by (induction ls rule: join_lines.induct) simp_all

lemma head_ends: \<open>\<exists>pre. join_lines html_head = pre @ str ''src="''\<close>
proof -
  have "html_head \<noteq> []" by (simp add: html_head_def)
  then obtain pre where "join_lines html_head = pre @ last html_head"
    using join_lines_last by blast
  moreover have \<open>last html_head = str ''    <img class="slider-img" id="afterImg" '' @ str ''src="''\<close>
    by (simp add: html_head_def str_def)
  ultimately have \<open>join_lines html_head = (pre @ str ''    <img class="slider-img" id="afterImg" '') @ str ''src="''\<close>
    by simp
  then show ?thesis by blast
qed

lemma mid_ends: \<open>\<exists>pre. join_lines html_mid = pre @ str ''src="''\<close>
proof -
  have "html_mid \<noteq> []" by (simp add: html_mid_def)
  then obtain pre where "join_lines html_mid = pre @ last html_mid"
    using join_lines_last by blast
  moreover have \<open>last html_mid = str ''      <img class="slider-img" id="beforeImg" '' @ str ''src="''\<close>
    by (simp add: html_mid_def str_def)
  ultimately have \<open>join_lines html_mid = (pre @ str ''      <img class="slider-img" id="beforeImg" '') @ str ''src="''\<close>
    by simp
  then show ?thesis by blast
qed

lemma mid_starts: \<open>\<exists>post. join_lines html_mid = [0x22] @ post\<close>
  by (simp add: html_mid_def str_def)

lemma tail_starts: \<open>\<exists>post. join_lines html_tail = [0x22] @ post\<close>
proof -
  have "html_tail \<noteq> []" by (simp add: html_tail_def)
  then obtain post where "join_lines html_tail = hd html_tail @ post"
    using join_lines_hd by blast
  moreover have \<open>hd html_tail = [0x22] @ str '' alt="Before" draggable="false">''\<close>
    by (simp add: html_tail_def str_def)
  ultimately show ?thesis by simp
qed

text \<open>
  C7. \<^verbatim>\<open>exportHtmlSlider\<close> throws \<open>Error('Invalid image data')\<close> (the specification's
  \<open>EncodingRejected\<close>) and produces no download unless both data URLs start with
  \<open>data:image/\<close>; a URL tagged \<open>text/plain\<close> is rejected. For an accepted pair the
  document is the fixed template with \<open>escapeHtml\<close> of each URL in a double-quoted
  \<open>src\<close> attribute, and the escaped text contains none of \<open><\<close>, \<open>>\<close>, the double quote
  and the single quote: each of them, and \<open>&\<close>, has become an entity.
\<close>

theorem exportHtmlSlider_validates_and_escapes:
  \<open>(\<not> startsWith b (str ''data:image/'') \<or> \<not> startsWith a (str ''data:image/'') \<longrightarrow>
      exportHtmlSlider b a = Inl (Error (str ''Invalid image data'')))
   \<and> (startsWith b (str ''data:image/'') \<and> startsWith a (str ''data:image/'') \<longrightarrow>
      exportHtmlSlider b a =
        Inr \<lparr>blob_text = join_lines html_head @ escapeHtml a @ join_lines html_mid
                          @ escapeHtml b @ join_lines html_tail,
             blob_type = str ''text/html'', filename = str ''before-after-slider.html''\<rparr>)
   \<and> escapeHtml a = concat (map escape_unit a)
   \<and> escapeHtml b = concat (map escape_unit b)
   \<and> set (escapeHtml a) \<inter> {0x3C, 0x3E, 0x22, 0x27} = {}
   \<and> set (escapeHtml b) \<inter> {0x3C, 0x3E, 0x22, 0x27} = {}
   \<and> (\<exists>pre. join_lines html_head = pre @ str ''src="'')
   \<and> (\<exists>post. join_lines html_mid = [0x22] @ post)
   \<and> (\<exists>pre. join_lines html_mid = pre @ str ''src="'')
   \<and> (\<exists>post. join_lines html_tail = [0x22] @ post)\<close>
proof -
  have rej: \<open>\<not> startsWith b (str ''data:image/'') \<or> \<not> startsWith a (str ''data:image/'') \<longrightarrow>
      exportHtmlSlider b a = Inl (Error (str ''Invalid image data''))\<close>
    by (simp add: exportHtmlSlider_def)
  have acc: \<open>startsWith b (str ''data:image/'') \<and> startsWith a (str ''data:image/'') \<longrightarrow>
      exportHtmlSlider b a =
        Inr \<lparr>blob_text = join_lines html_head @ escapeHtml a @ join_lines html_mid
                          @ escapeHtml b @ join_lines html_tail,
             blob_type = str ''text/html'', filename = str ''before-after-slider.html''\<rparr>\<close>
    by (simp add: exportHtmlSlider_def Let_def)
  show ?thesis
    using rej acc escapeHtml_per_unit [of a] escapeHtml_per_unit [of b]
      escapeHtml_safe [of a] escapeHtml_safe [of b] head_ends mid_starts mid_ends tail_starts
    by (intro conjI)
qed

theorem exportHtmlSlider_validates_and_escapes_witness:
  \<open>exportHtmlSlider (str ''data:text/plain;base64,SGk='') (str ''data:image/png;base64,AA'')
     = Inl (Error (str ''Invalid image data''))
   \<and> exportHtmlSlider (str ''data:image/png;base64,AA'') (str ''data:image/png;base64,"><script>'')
     = Inr \<lparr>blob_text = join_lines html_head @ str ''data:image/png;base64,&quot;&gt;&lt;script&gt;''
                @ join_lines html_mid @ str ''data:image/png;base64,AA'' @ join_lines html_tail,
             blob_type = str ''text/html'', filename = str ''before-after-slider.html''\<rparr>\<close>
proof -
  have plain: \<open>\<not> startsWith (str ''data:text/plain;base64,SGk='') (str ''data:image/'')
      \<or> \<not> startsWith (str ''data:image/png;base64,AA'') (str ''data:image/'')\<close>
    by (simp add: startsWith_def str_def)
  have img: \<open>startsWith (str ''data:image/png;base64,AA'') (str ''data:image/'')
      \<and> startsWith (str ''data:image/png;base64,"><script>'') (str ''data:image/'')\<close>
    by (simp add: startsWith_def str_def)
  have e1: \<open>concat (map escape_unit (str ''data:image/png;base64,"><script>'')) =
    str ''data:image/png;base64,&quot;&gt;&lt;script&gt;''\<close>
    by (simp add: escape_unit_def str_def)
  have e2: \<open>concat (map escape_unit (str ''data:image/png;base64,AA'')) =
    str ''data:image/png;base64,AA''\<close>
    by (simp add: escape_unit_def str_def)
  note rej = exportHtmlSlider_validates_and_escapes
    [of \<open>str ''data:text/plain;base64,SGk=''\<close> \<open>str ''data:image/png;base64,AA''\<close>]
  note acc = exportHtmlSlider_validates_and_escapes
    [of \<open>str ''data:image/png;base64,AA''\<close> \<open>str ''data:image/png;base64,"><script>''\<close>]
  have \<open>exportHtmlSlider (str ''data:text/plain;base64,SGk='') (str ''data:image/png;base64,AA'')
     = Inl (Error (str ''Invalid image data''))\<close>
    by (rule rej [THEN conjunct1, THEN mp, OF plain])
  moreover have \<open>exportHtmlSlider (str ''data:image/png;base64,AA'') (str ''data:image/png;base64,"><script>'')
     = Inr \<lparr>blob_text = join_lines html_head @ str ''data:image/png;base64,&quot;&gt;&lt;script&gt;''
                @ join_lines html_mid @ str ''data:image/png;base64,AA'' @ join_lines html_tail,
             blob_type = str ''text/html'', filename = str ''before-after-slider.html''\<rparr>\<close>
    using acc [THEN conjunct2, THEN conjunct1, THEN mp, OF img]
    unfolding acc [THEN conjunct2, THEN conjunct2, THEN conjunct1]
      acc [THEN conjunct2, THEN conjunct2, THEN conjunct2, THEN conjunct1] e1 e2 .
  ultimately show ?thesis
    by (intro conjI)
qed

subsection \<open>Slider listeners\<close>

lemma fold_remove_listeners:
  "listeners (fold removeEventListener ls p) = filter (\<lambda>x. x \<notin> set ls) (listeners p)"
  by (induction ls arbitrary: p) (auto simp: removeEventListener_def intro: filter_cong)

lemma fold_remove_fields:
  "inlineSliderCleanup (fold removeEventListener ls p) = inlineSliderCleanup p"
  "fullscreenSliderCleanup (fold removeEventListener ls p) = fullscreenSliderCleanup p"
  "runs (fold removeEventListener ls p) = runs p"
  "closed (fold removeEventListener ls p) = closed p"
  by (induction ls arbitrary: p) (simp_all add: removeEventListener_def)

lemma fold_add_listeners:
  "distinct ls \<Longrightarrow> set ls \<inter> set (listeners p) = {} \<Longrightarrow>
   listeners (fold addEventListener ls p) = listeners p @ ls"
  by (induction ls arbitrary: p) (auto simp: addEventListener_def)

lemma fold_add_fields:
  "inlineSliderCleanup (fold addEventListener ls p) = inlineSliderCleanup p"
  "fullscreenSliderCleanup (fold addEventListener ls p) = fullscreenSliderCleanup p"
  "runs (fold addEventListener ls p) = runs p"
  "closed (fold addEventListener ls p) = closed p"
  by (induction ls arbitrary: p) (simp_all add: addEventListener_def)

lemma inline_removed_eq: "inline_removed g c = inline_added g c"
  by (simp add: inline_removed_def inline_added_def)

lemma fullscreen_removed_eq: "fullscreen_removed g c = fullscreen_added g c"
  by (simp add: fullscreen_removed_def fullscreen_added_def)

lemma distinct_inline_added: "distinct (inline_added g c)"
  by (simp add: inline_added_def)

lemma distinct_fullscreen_added: "distinct (fullscreen_added g c)"
  by (simp add: fullscreen_added_def)

lemma run_of_inline_added: "l \<in> set (inline_added g c) \<Longrightarrow> run_of l = g"
  by (auto simp: inline_added_def)

lemma run_of_fullscreen_added: "l \<in> set (fullscreen_added g c) \<Longrightarrow> run_of l = g"
  by (auto simp: fullscreen_added_def split: if_splits)

lemma is_kind_None [simp]: "is_inline None" "is_fullscreen None"
  "is_inline (Some (InlineCleanup g c))" "is_fullscreen (Some (FullscreenCleanup g c))"
  by (simp_all add: is_inline_def is_fullscreen_def)

lemma page_ok_initial: "page_ok initial_page"
  by (simp add: page_ok_def initial_page_def is_inline_def is_fullscreen_def)

lemma destroyInline_listeners:
  "is_inline (inlineSliderCleanup p) \<Longrightarrow>
   listeners (destroyInlineSlider p) = filter (\<lambda>x. x \<notin> set (live (inlineSliderCleanup p))) (listeners p)"
  by (auto simp: destroyInlineSlider_def is_inline_def fold_remove_listeners inline_removed_eq
      split: option.splits cleanup.splits)

lemma destroyInline_fields:
  "is_inline (inlineSliderCleanup p) \<Longrightarrow> inlineSliderCleanup (destroyInlineSlider p) = None"
  "is_inline (inlineSliderCleanup p) \<Longrightarrow> fullscreenSliderCleanup (destroyInlineSlider p) = fullscreenSliderCleanup p"
  "is_inline (inlineSliderCleanup p) \<Longrightarrow> runs (destroyInlineSlider p) = runs p"
  by (auto simp: destroyInlineSlider_def is_inline_def fold_remove_fields
      split: option.splits cleanup.splits)

lemma destroyFullscreen_listeners:
  "is_fullscreen (fullscreenSliderCleanup p) \<Longrightarrow>
   listeners (destroyFullscreenSlider p) = filter (\<lambda>x. x \<notin> set (live (fullscreenSliderCleanup p))) (listeners p)"
  by (auto simp: destroyFullscreenSlider_def is_fullscreen_def fold_remove_listeners fullscreen_removed_eq
      split: option.splits cleanup.splits)

lemma destroyFullscreen_fields:
  "is_fullscreen (fullscreenSliderCleanup p) \<Longrightarrow> fullscreenSliderCleanup (destroyFullscreenSlider p) = None"
  "is_fullscreen (fullscreenSliderCleanup p) \<Longrightarrow> inlineSliderCleanup (destroyFullscreenSlider p) = inlineSliderCleanup p"
  "is_fullscreen (fullscreenSliderCleanup p) \<Longrightarrow> runs (destroyFullscreenSlider p) = runs p"
  by (auto simp: destroyFullscreenSlider_def is_fullscreen_def fold_remove_fields
      split: option.splits cleanup.splits)

lemma page_ok_destroyInline:
  assumes "page_ok p"
  shows "page_ok (destroyInlineSlider p)"
    and "set (listeners (destroyInlineSlider p)) = set (live (fullscreenSliderCleanup p))"
  using assms
  by (auto simp: page_ok_def destroyInline_listeners destroyInline_fields)

lemma page_ok_destroyFullscreen:
  assumes "page_ok p"
  shows "page_ok (destroyFullscreenSlider p)"
    and "set (listeners (destroyFullscreenSlider p)) = set (live (inlineSliderCleanup p))"
  using assms
  by (auto simp: page_ok_def destroyFullscreen_listeners destroyFullscreen_fields)

lemma initInline_unfold:
  "initInlineSlider c p =
     (fold addEventListener (inline_added (runs (destroyInlineSlider p)) c)
        ((destroyInlineSlider p)\<lparr>runs := runs (destroyInlineSlider p) + 1\<rparr>))
       \<lparr>inlineSliderCleanup := Some (InlineCleanup (runs (destroyInlineSlider p)) c)\<rparr>"
  by (simp add: initInlineSlider_def destroyInlineSlider_def Let_def)

lemma initFullscreen_unfold:
  "initFullscreenSlider c p =
     (fold addEventListener (fullscreen_added (runs (destroyFullscreenSlider p)) c)
        ((destroyFullscreenSlider p)\<lparr>runs := runs (destroyFullscreenSlider p) + 1\<rparr>))
       \<lparr>fullscreenSliderCleanup := Some (FullscreenCleanup (runs (destroyFullscreenSlider p)) c)\<rparr>"
  by (simp add: initFullscreenSlider_def destroyFullscreenSlider_def Let_def)

lemma initInline_listeners:
  assumes "page_ok p"
  shows "listeners (initInlineSlider c p) =
           listeners (destroyInlineSlider p) @ inline_added (runs p) c"
proof -
  let ?d = "destroyInlineSlider p"
  have ok: "page_ok ?d" using assms by (rule page_ok_destroyInline)
  have r: "runs ?d = runs p" using assms by (simp add: page_ok_def destroyInline_fields)
  have old: "\<forall>l\<in>set (listeners ?d). run_of l < runs p"
    using ok r by (simp add: page_ok_def)
  have new: "\<forall>l\<in>set (inline_added (runs p) c). run_of l = runs p"
    by (auto dest: run_of_inline_added)
  have "set (inline_added (runs p) c) \<inter> set (listeners ?d) = {}"
    using old new by fastforce
  then have "listeners (fold addEventListener (inline_added (runs p) c) (?d\<lparr>runs := runs p + 1\<rparr>))
      = listeners ?d @ inline_added (runs p) c"
    using fold_add_listeners [OF distinct_inline_added, of "runs p" c "?d\<lparr>runs := runs p + 1\<rparr>"]
    by simp
  then show ?thesis
    by (simp add: initInline_unfold r)
qed

lemma initInline_fields:
  assumes "page_ok p"
  shows "inlineSliderCleanup (initInlineSlider c p) = Some (InlineCleanup (runs p) c)"
    and "fullscreenSliderCleanup (initInlineSlider c p) = fullscreenSliderCleanup p"
    and "runs (initInlineSlider c p) = runs p + 1"
  using assms
  by (simp_all add: initInline_unfold fold_add_fields destroyInline_fields page_ok_def)

lemma initFullscreen_listeners:
  assumes "page_ok p"
  shows "listeners (initFullscreenSlider c p) =
           listeners (destroyFullscreenSlider p) @ fullscreen_added (runs p) c"
proof -
  let ?d = "destroyFullscreenSlider p"
  have ok: "page_ok ?d" using assms by (rule page_ok_destroyFullscreen)
  have r: "runs ?d = runs p" using assms by (simp add: page_ok_def destroyFullscreen_fields)
  have old: "\<forall>l\<in>set (listeners ?d). run_of l < runs p"
    using ok r by (simp add: page_ok_def)
  have new: "\<forall>l\<in>set (fullscreen_added (runs p) c). run_of l = runs p"
    by (auto dest: run_of_fullscreen_added)
  have "set (fullscreen_added (runs p) c) \<inter> set (listeners ?d) = {}"
    using old new by fastforce
  then have "listeners (fold addEventListener (fullscreen_added (runs p) c) (?d\<lparr>runs := runs p + 1\<rparr>))
      = listeners ?d @ fullscreen_added (runs p) c"
    using fold_add_listeners [OF distinct_fullscreen_added, of "runs p" c "?d\<lparr>runs := runs p + 1\<rparr>"]
    by simp
  then show ?thesis
    by (simp add: initFullscreen_unfold r)
qed

lemma initFullscreen_fields:
  assumes "page_ok p"
  shows "fullscreenSliderCleanup (initFullscreenSlider c p) = Some (FullscreenCleanup (runs p) c)"
    and "inlineSliderCleanup (initFullscreenSlider c p) = inlineSliderCleanup p"
    and "runs (initFullscreenSlider c p) = runs p + 1"
  using assms
  by (simp_all add: initFullscreen_unfold fold_add_fields destroyFullscreen_fields page_ok_def)

lemma page_ok_initInline:
  assumes "page_ok p"
  shows "page_ok (initInlineSlider c p)"
proof -
  let ?d = "destroyInlineSlider p"
  let ?q = "initInlineSlider c p"
  let ?new = "inline_added (runs p) c"
  have L: "listeners ?q = listeners ?d @ ?new"
    using assms by (rule initInline_listeners)
  have I: "inlineSliderCleanup ?q = Some (InlineCleanup (runs p) c)"
    and F: "fullscreenSliderCleanup ?q = fullscreenSliderCleanup p"
    and R: "runs ?q = runs p + 1"
    using assms by (rule initInline_fields)+
  have dset: "set (listeners ?d) = set (live (fullscreenSliderCleanup p))"
    using assms by (rule page_ok_destroyInline)
  have dd: "distinct (listeners ?d)"
    using page_ok_destroyInline(1) [OF assms] by (simp add: page_ok_def)
  have fk: "is_fullscreen (fullscreenSliderCleanup p)"
    using assms by (simp add: page_ok_def)
  have old: "\<forall>l\<in>set (live (fullscreenSliderCleanup p)). run_of l < runs p"
    using assms by (simp add: page_ok_def)
  have new: "\<forall>l\<in>set ?new. run_of l = runs p"
    by (auto dest: run_of_inline_added)
  have disj: "set ?new \<inter> set (live (fullscreenSliderCleanup p)) = {}"
    using old new by fastforce
  have c3: "\<forall>l\<in>set (listeners ?d @ ?new). run_of l < runs p + 1"
    using old new dset by auto
  have c4: "distinct (listeners ?d @ ?new)"
    using dd disj dset distinct_inline_added [of "runs p" c] by auto
  have c6: "set (listeners ?d @ ?new) = set ?new \<union> set (live (fullscreenSliderCleanup p))"
    using dset by auto
  show ?thesis
    unfolding page_ok_def L I F R
    using fk c3 c4 c6 disj by (simp add: Int_commute Un_commute)
qed

lemma page_ok_initFullscreen:
  assumes "page_ok p"
  shows "page_ok (initFullscreenSlider c p)"
proof -
  let ?d = "destroyFullscreenSlider p"
  let ?q = "initFullscreenSlider c p"
  let ?new = "fullscreen_added (runs p) c"
  have L: "listeners ?q = listeners ?d @ ?new"
    using assms by (rule initFullscreen_listeners)
  have I: "fullscreenSliderCleanup ?q = Some (FullscreenCleanup (runs p) c)"
    and F: "inlineSliderCleanup ?q = inlineSliderCleanup p"
    and R: "runs ?q = runs p + 1"
    using assms by (rule initFullscreen_fields)+
  have dset: "set (listeners ?d) = set (live (inlineSliderCleanup p))"
    using assms by (rule page_ok_destroyFullscreen)
  have dd: "distinct (listeners ?d)"
    using page_ok_destroyFullscreen(1) [OF assms] by (simp add: page_ok_def)
  have fk: "is_inline (inlineSliderCleanup p)"
    using assms by (simp add: page_ok_def)
  have old: "\<forall>l\<in>set (live (inlineSliderCleanup p)). run_of l < runs p"
    using assms by (simp add: page_ok_def)
  have new: "\<forall>l\<in>set ?new. run_of l = runs p"
    by (auto dest: run_of_fullscreen_added)
  have disj: "set ?new \<inter> set (live (inlineSliderCleanup p)) = {}"
    using old new by fastforce
  have c3: "\<forall>l\<in>set (listeners ?d @ ?new). run_of l < runs p + 1"
    using old new dset by auto
  have c4: "distinct (listeners ?d @ ?new)"
    using dd disj dset distinct_fullscreen_added [of "runs p" c] by auto
  have c6: "set (listeners ?d @ ?new) = set ?new \<union> set (live (inlineSliderCleanup p))"
    using dset by auto
  show ?thesis
    unfolding page_ok_def L I F R
    using fk c3 c4 c6 disj by (simp add: Int_commute Un_commute)
qed

lemma page_ok_do_call: "page_ok p \<Longrightarrow> page_ok (do_call x p)"
  by (cases x) (simp_all add: page_ok_initInline page_ok_initFullscreen
      page_ok_destroyInline page_ok_destroyFullscreen)

lemma page_ok_fold: "page_ok p \<Longrightarrow> page_ok (fold do_call xs p)"
  by (induction xs arbitrary: p) (simp_all add: page_ok_do_call)

lemma only_inline_fold:
  "page_ok (fold initInlineSlider cs initial_page)
   \<and> fullscreenSliderCleanup (fold initInlineSlider cs initial_page) = None
   \<and> runs (fold initInlineSlider cs initial_page) = length cs"
proof (induction cs rule: rev_induct)
  case Nil
  show ?case by (simp add: page_ok_initial) (simp add: initial_page_def)
next
  case (snoc c cs)
  then show ?case
    by (simp add: page_ok_initInline initInline_fields)
qed

lemma only_fullscreen_fold:
  "page_ok (fold initFullscreenSlider cs initial_page)
   \<and> inlineSliderCleanup (fold initFullscreenSlider cs initial_page) = None
   \<and> runs (fold initFullscreenSlider cs initial_page) = length cs"
proof (induction cs rule: rev_induct)
  case Nil
  show ?case by (simp add: page_ok_initial) (simp add: initial_page_def)
next
  case (snoc c cs)
  then show ?case
    by (simp add: page_ok_initFullscreen initFullscreen_fields)
qed

lemma only_inline_listeners:
  "listeners (fold initInlineSlider (cs @ [c]) initial_page) = inline_added (length cs) c"
proof -
  let ?p = "fold initInlineSlider cs initial_page"
  have ok: "page_ok ?p" and fs: "fullscreenSliderCleanup ?p = None" and r: "runs ?p = length cs"
    using only_inline_fold [of cs] by simp_all
  have "set (listeners (destroyInlineSlider ?p)) = {}"
    using page_ok_destroyInline(2) [OF ok] fs by simp
  then show ?thesis
    using initInline_listeners [OF ok, of c] r by simp
qed

lemma only_fullscreen_listeners:
  "listeners (fold initFullscreenSlider (cs @ [c]) initial_page) = fullscreen_added (length cs) c"
proof -
  let ?p = "fold initFullscreenSlider cs initial_page"
  have ok: "page_ok ?p" and fs: "inlineSliderCleanup ?p = None" and r: "runs ?p = length cs"
    using only_fullscreen_fold [of cs] by simp_all
  have "set (listeners (destroyFullscreenSlider ?p)) = {}"
    using page_ok_destroyFullscreen(2) [OF ok] fs by simp
  then show ?thesis
    using initFullscreen_listeners [OF ok, of c] r by simp
qed

text \<open>
  C9. After one or more initializations of the inline slider (of the fullscreen slider) in
  a row, the registered listeners are exactly those that the latest initialization has
  attached. In any sequence of init and destroy calls of both kinds, the registered
  listeners are, without repetition, those of the latest live initialization of each kind;
  an initialization first removes every listener that the previous initialization of its
  kind has attached and then appends its own.
\<close>

theorem slider_listeners_one_set_per_kind:
  "listeners (fold initInlineSlider (cs @ [c]) initial_page) = inline_added (length cs) c
   \<and> listeners (fold initFullscreenSlider (cs @ [c]) initial_page)
       = fullscreen_added (length cs) c
   \<and> (let p = fold do_call xs initial_page in
        distinct (listeners p)
        \<and> set (listeners p) =
            set (live (inlineSliderCleanup p)) \<union> set (live (fullscreenSliderCleanup p))
        \<and> listeners (initInlineSlider c p) =
            filter (\<lambda>l. l \<notin> set (live (inlineSliderCleanup p))) (listeners p)
            @ inline_added (runs p) c
        \<and> inlineSliderCleanup (initInlineSlider c p) = Some (InlineCleanup (runs p) c)
        \<and> listeners (initFullscreenSlider c p) =
            filter (\<lambda>l. l \<notin> set (live (fullscreenSliderCleanup p))) (listeners p)
            @ fullscreen_added (runs p) c
        \<and> fullscreenSliderCleanup (initFullscreenSlider c p)
            = Some (FullscreenCleanup (runs p) c))"
proof -
  let ?p = "fold do_call xs initial_page"
  have ok: "page_ok ?p"
    by (rule page_ok_fold) (rule page_ok_initial)
  then have kinds: "is_inline (inlineSliderCleanup ?p)" "is_fullscreen (fullscreenSliderCleanup ?p)"
    by (simp_all add: page_ok_def)
  have "distinct (listeners ?p)"
    and "set (listeners ?p) =
            set (live (inlineSliderCleanup ?p)) \<union> set (live (fullscreenSliderCleanup ?p))"
    using ok by (simp_all add: page_ok_def)
  moreover have "listeners (initInlineSlider c ?p) =
            filter (\<lambda>l. l \<notin> set (live (inlineSliderCleanup ?p))) (listeners ?p)
            @ inline_added (runs ?p) c"
    using initInline_listeners [OF ok] destroyInline_listeners [OF kinds(1)] by simp
  moreover have "listeners (initFullscreenSlider c ?p) =
            filter (\<lambda>l. l \<notin> set (live (fullscreenSliderCleanup ?p))) (listeners ?p)
            @ fullscreen_added (runs ?p) c"
    using initFullscreen_listeners [OF ok] destroyFullscreen_listeners [OF kinds(2)] by simp
  ultimately show ?thesis
    using only_inline_listeners [of cs c] only_fullscreen_listeners [of cs c]
      initInline_fields(1) [OF ok, of c] initFullscreen_fields(1) [OF ok, of c]
    by (simp add: Let_def)
qed

theorem slider_listeners_one_set_per_kind_witness:
  "listeners (initInlineSlider \<lparr>cid = 2, has_closeBtn = False\<rparr>
       (initInlineSlider \<lparr>cid = 1, has_closeBtn = False\<rparr> initial_page))
     = inline_added 1 \<lparr>cid = 2, has_closeBtn = False\<rparr>
   \<and> length (listeners (initInlineSlider \<lparr>cid = 2, has_closeBtn = False\<rparr>
       (initInlineSlider \<lparr>cid = 1, has_closeBtn = False\<rparr> initial_page))) = 10
   \<and> length (listeners (initFullscreenSlider \<lparr>cid = 1, has_closeBtn = True\<rparr>
       (initFullscreenSlider \<lparr>cid = 1, has_closeBtn = True\<rparr> initial_page))) = 12"
proof -
  note t = slider_listeners_one_set_per_kind
    [of "[\<lparr>cid = 1, has_closeBtn = False\<rparr>]" "\<lparr>cid = 2, has_closeBtn = False\<rparr>" "[]"]
  note u = slider_listeners_one_set_per_kind
    [of "[\<lparr>cid = 1, has_closeBtn = True\<rparr>]" "\<lparr>cid = 1, has_closeBtn = True\<rparr>" "[]"]
  have a: "listeners (initInlineSlider \<lparr>cid = 2, has_closeBtn = False\<rparr>
       (initInlineSlider \<lparr>cid = 1, has_closeBtn = False\<rparr> initial_page))
     = inline_added 1 \<lparr>cid = 2, has_closeBtn = False\<rparr>"
    using t [THEN conjunct1] by simp
  have b: "listeners (initFullscreenSlider \<lparr>cid = 1, has_closeBtn = True\<rparr>
       (initFullscreenSlider \<lparr>cid = 1, has_closeBtn = True\<rparr> initial_page))
     = fullscreen_added 1 \<lparr>cid = 1, has_closeBtn = True\<rparr>"
    using u [THEN conjunct2, THEN conjunct1] by simp
  show ?thesis
    unfolding a b by (simp add: inline_added_def fullscreen_added_def)
qed

subsection \<open>Animated export: working size, palette, encoder calls\<close>

lemma length_u8_set: "length (u8_set xs i v) = length xs"
  by (simp add: u8_set_def)

lemma u8_set_in_range: "i < length xs \<Longrightarrow> u8_set xs i v = xs[i := v mod 256]"
  by (simp add: u8_set_def)

lemma four_stores:
  assumes "ci + 4 \<le> length xs"
  shows "u8_set (u8_set (u8_set (u8_set xs ci a) (ci + 1) b) (ci + 2) c) (ci + 3) d =
           take ci xs @ [a mod 256, b mod 256, c mod 256, d mod 256] @ drop (ci + 4) xs"
proof -
  let ?ys = "xs[ci := a mod 256, ci + 1 := b mod 256, ci + 2 := c mod 256, ci + 3 := d mod 256]"
  have "u8_set (u8_set (u8_set (u8_set xs ci a) (ci + 1) b) (ci + 2) c) (ci + 3) d = ?ys"
    using assms by (simp add: u8_set_in_range length_u8_set)
  also have "?ys = take ci xs @ [a mod 256, b mod 256, c mod 256, d mod 256] @ drop (ci + 4) xs"
  proof (rule nth_equalityI)
    show "length ?ys =
      length (take ci xs @ [a mod 256, b mod 256, c mod 256, d mod 256] @ drop (ci + 4) xs)"
      using assms by simp
  next
    fix j
    assume "j < length ?ys"
    then have j: "j < length xs" by simp
    consider "j < ci" | "j = ci" | "j = ci + 1" | "j = ci + 2" | "j = ci + 3" | "ci + 4 \<le> j"
      by linarith
    then show "?ys ! j =
      (take ci xs @ [a mod 256, b mod 256, c mod 256, d mod 256] @ drop (ci + 4) xs) ! j"
    proof cases
      case 6
      then obtain k where k: "j = ci + 4 + k" using nat_le_iff_add by blast
      then show ?thesis using assms j by (simp add: nth_append)
    qed (use assms j in \<open>simp_all add: nth_append\<close>)
  qed
  finally show ?thesis .
qed

lemma drop_past: "length xs = a \<Longrightarrow> drop (a + m) (xs @ ys) = drop m ys"
  by simp

lemma take_prefix: "length xs = a \<Longrightarrow> take a (xs @ ys) = xs"
  by simp

lemma sample_loop_eq:
  assumes "j \<le> n" "n = (totalPixels + 3) div 4" "ci + 4 * (n - j) \<le> length combined"
  shows "sample_loop pixels totalPixels (16 * j) (combined, ci) =
           (take ci combined @ concat (map (sample_at pixels) [j ..< n])
              @ drop (ci + 4 * (n - j)) combined,
            ci + 4 * (n - j))"
  using assms
proof (induction "n - j" arbitrary: j combined ci)
  case 0
  then have "j = n" by simp
  then have "\<not> 16 * j < totalPixels * 4" using 0 by simp
  then show ?case using \<open>j = n\<close> by (subst sample_loop.simps) simp
next
  case (Suc d)
  then have lt: "j < n" by simp
  then have cond: "16 * j < totalPixels * 4" using Suc.prems by simp
  have room: "ci + 4 \<le> length combined" using Suc.prems lt by simp
  let ?c = "take ci combined @ sample_at pixels j @ drop (ci + 4) combined"
  have a: "sample_loop pixels totalPixels (16 * j) (combined, ci) =
      sample_loop pixels totalPixels (16 * j + step * 4)
        (u8_set (u8_set (u8_set (u8_set combined ci (u8_get pixels (16 * j)))
            (ci + 1) (u8_get pixels (16 * j + 1)))
            (ci + 2) (u8_get pixels (16 * j + 2))) (ci + 3) 255, ci + 4)"
    by (subst sample_loop.simps) (simp only: cond if_True Let_def)
  have b: "16 * j + step * 4 = 16 * (j + 1)"
    by (simp add: step_def)
  have c: "u8_set (u8_set (u8_set (u8_set combined ci (u8_get pixels (16 * j)))
            (ci + 1) (u8_get pixels (16 * j + 1)))
            (ci + 2) (u8_get pixels (16 * j + 2))) (ci + 3) 255 = ?c"
    using four_stores [OF room, of "u8_get pixels (16 * j)" "u8_get pixels (16 * j + 1)"
        "u8_get pixels (16 * j + 2)" 255]
    by (simp add: sample_at_def)
  have step1: "sample_loop pixels totalPixels (16 * j) (combined, ci) =
      sample_loop pixels totalPixels (16 * (j + 1)) (?c, ci + 4)"
    unfolding a b c ..
  have len: "length ?c = length combined" using room by (simp add: sample_at_def)
  have ih: "sample_loop pixels totalPixels (16 * (j + 1)) (?c, ci + 4) =
           (take (ci + 4) ?c @ concat (map (sample_at pixels) [j + 1 ..< n])
              @ drop (ci + 4 + 4 * (n - (j + 1))) ?c,
            ci + 4 + 4 * (n - (j + 1)))"
    using Suc.hyps(1) [of "j + 1" "ci + 4" ?c] Suc.hyps(2) Suc.prems lt len by simp
  have lp: "length (take ci combined @ sample_at pixels j) = ci + 4"
    using room by (simp add: sample_at_def)
  have t: "take (ci + 4) ?c = take ci combined @ sample_at pixels j"
    using take_prefix [OF lp, of "drop (ci + 4) combined"] by simp
  have "drop (ci + 4 + 4 * (n - (j + 1))) ?c = drop (4 * (n - (j + 1))) (drop (ci + 4) combined)"
    using drop_past [OF lp, of "4 * (n - (j + 1))" "drop (ci + 4) combined"] by simp
  also have "\<dots> = drop (ci + 4 * (n - j)) combined"
  proof -
    have "4 * (n - (j + 1)) + (ci + 4) = ci + 4 * (n - j)"
      using lt by simp
    then show ?thesis
      by (simp only: drop_drop)
  qed
  finally have d: "drop (ci + 4 + 4 * (n - (j + 1))) ?c = drop (ci + 4 * (n - j)) combined" .
  have u: "[j ..< n] = j # [j + 1 ..< n]" using lt by (simp add: upt_conv_Cons)
  have e: "ci + 4 + 4 * (n - (j + 1)) = ci + 4 * (n - j)" using lt by simp
  have "sample_loop pixels totalPixels (16 * j) (combined, ci) =
      ((take ci combined @ sample_at pixels j) @ concat (map (sample_at pixels) [j + 1 ..< n])
         @ drop (ci + 4 * (n - j)) combined, ci + 4 + 4 * (n - (j + 1)))"
    unfolding step1 ih t d ..
  then show ?case
    unfolding u e by simp
qed

lemma ceil_quarter: "nat (Math_ceil (of_nat t / of_nat step)) = (t + 3) div 4"
proof -
  have "\<lceil>rat_of_nat t / 4\<rceil> = int ((t + 3) div 4)"
  proof (rule ceiling_unique)
    have "rat_of_nat t \<le> 4 * rat_of_nat ((t + 3) div 4)"
    proof -
      have "t \<le> 4 * ((t + 3) div 4)" by arith
      then have "rat_of_nat t \<le> rat_of_nat (4 * ((t + 3) div 4))"
        by (simp only: of_nat_le_iff)
      then show ?thesis by simp
    qed
    then show "rat_of_nat t / 4 \<le> rat_of_int (int ((t + 3) div 4))" by simp
    have "4 * ((t + 3) div 4) < t + 4" by arith
    then have "rat_of_nat (4 * ((t + 3) div 4)) < rat_of_nat (t + 4)"
      by (simp only: of_nat_less_iff)
    then show "rat_of_int (int ((t + 3) div 4)) - 1 < rat_of_nat t / 4" by simp
  qed
  then show ?thesis by (simp add: Math_ceil_def step_def)
qed

lemma palette_samples_eq:
  "palette_samples beforePixels afterPixels w h =
     every_4th_pixel beforePixels (w * h) @ every_4th_pixel afterPixels (w * h)"
proof -
  let ?n = "(w * h + 3) div 4"
  let ?c0 = "replicate (?n * 2 * 4) (0::nat)"
  have s1: "sample_loop beforePixels (w * h) 0 (?c0, 0) =
      (every_4th_pixel beforePixels (w * h) @ drop (4 * ?n) ?c0, 4 * ?n)"
    using sample_loop_eq [of 0 ?n "w * h" 0 ?c0 beforePixels]
    by (simp add: every_4th_pixel_def)
  let ?c1 = "every_4th_pixel beforePixels (w * h) @ drop (4 * ?n) ?c0"
  have l1: "length (every_4th_pixel beforePixels (w * h)) = 4 * ?n"
    by (simp add: every_4th_pixel_def length_concat comp_def sample_at_def sum_list_triv)
  have s2: "sample_loop afterPixels (w * h) 0 (?c1, 4 * ?n) =
      (take (4 * ?n) ?c1 @ every_4th_pixel afterPixels (w * h) @ drop (4 * ?n + 4 * ?n) ?c1,
       4 * ?n + 4 * ?n)"
    using sample_loop_eq [of 0 ?n "w * h" "4 * ?n" ?c1 afterPixels] l1
    by (simp add: every_4th_pixel_def)
  have l2: "length (every_4th_pixel afterPixels (w * h)) = 4 * ?n"
    by (simp add: every_4th_pixel_def length_concat comp_def sample_at_def sum_list_triv)
  show ?thesis
    unfolding palette_samples_def Let_def ceil_quarter s1 s2
    using l1 l2 by simp
qed

lemma gif_scale_small:
  assumes "n \<le> 480"
  shows "gif_scale n = 1"
proof (cases "n = 0")
  case True
  then show ?thesis by (simp add: gif_scale_def)
next
  case False
  then have "1 \<le> 480 / rat_of_nat n"
    using assms by simp
  then have "1 \<le> fl (480 / rat_of_nat n)"
    by (rule fl_ge_1)
  then show ?thesis
    using False by (simp add: gif_scale_def maxW_def)
qed

lemma gif_scale_large:
  assumes "480 < n"
  shows "gif_scale n = fl (480 / of_nat n)"
    and "\<bar>gif_scale n - 480 / of_nat n\<bar> \<le> 1 / 2 ^ 54"
    and "0 \<le> gif_scale n" and "gif_scale n < 1"
proof -
  let ?x = "480 / rat_of_nat n"
  have n: "481 \<le> rat_of_nat n"
    using assms by (simp add: of_nat_le_iff [of 481 n, simplified] Suc_le_eq)
  then have x0: "0 < ?x"
    by simp
  have x1: "?x \<le> 480 / 481"
    using n by (intro frac_le) simp_all
  note x = x0 x1
  have "?x < 1"
    using x1 by linarith
  then have "\<bar>?x\<bar> < 2 ^ 0"
    using x0 by simp
  then have err: "\<bar>fl ?x - ?x\<bar> \<le> 2 ^ 0 / 2 ^ 54"
    by (rule fl_abs_err)
  then have "\<bar>fl ?x - ?x\<bar> \<le> 1 / 18014398509481984"
    by simp
  then have lt: "fl ?x < 1"
    using x1 by linarith
  then show s: "gif_scale n = fl ?x"
    using assms by (simp add: gif_scale_def maxW_def)
  show "\<bar>gif_scale n - ?x\<bar> \<le> 1 / 2 ^ 54"
    using err unfolding s by simp
  show "0 \<le> gif_scale n"
    unfolding s using x by (intro fl_nonneg) simp
  show "gif_scale n < 1"
    unfolding s by (rule lt)
qed

lemma scaled_large:
  assumes "480 < n" "n < 2 ^ 32" "h < 2 ^ 32"
  shows "\<bar>fl (rat_of_nat h * gif_scale n) - of_nat h * 480 / of_nat n\<bar> \<le> 1 / 2 ^ 21"
proof -
  let ?s = "gif_scale n"
  let ?x = "480 / rat_of_nat n"
  note sc = gif_scale_large [OF assms(1)]
  have h: "rat_of_nat h < 2 ^ 32"
    using assms(3) by (simp add: of_nat_less_iff [of h "2 ^ 32", simplified])
  have "rat_of_nat h * ?s - of_nat h * ?x = of_nat h * (?s - ?x)"
    by (simp add: algebra_simps)
  then have "\<bar>rat_of_nat h * ?s - of_nat h * ?x\<bar> = of_nat h * \<bar>?s - ?x\<bar>"
    by (simp add: abs_mult)
  also have "\<dots> \<le> 2 ^ 32 * (1 / 2 ^ 54)"
    using h sc(2) by (intro mult_mono) simp_all
  finally have a: "\<bar>rat_of_nat h * ?s - of_nat h * ?x\<bar> \<le> 1 / 4194304"
    by simp
  have "rat_of_nat h * ?s \<le> of_nat h * 1"
    using sc(4) by (intro mult_left_mono) simp_all
  moreover have "0 \<le> rat_of_nat h * ?s"
    using sc(3) by simp
  ultimately have "\<bar>rat_of_nat h * ?s\<bar> < 2 ^ 32"
    using h by simp
  then have "\<bar>fl (rat_of_nat h * ?s) - rat_of_nat h * ?s\<bar> \<le> 2 ^ 32 / 2 ^ 54"
    by (rule fl_abs_err)
  then have b: "\<bar>fl (rat_of_nat h * ?s) - rat_of_nat h * ?s\<bar> \<le> 1 / 4194304"
    by simp
  have "\<bar>fl (rat_of_nat h * ?s) - of_nat h * ?x\<bar> \<le> 1 / 2097152"
    using a b by linarith
  then show ?thesis
    by simp
qed

lemma scaled_width:
  assumes "n < 2 ^ 32"
  shows "nat (Math_round (fl (rat_of_nat n * gif_scale n))) = min n 480"
proof (cases "n \<le> 480")
  case True
  have "n < 2 ^ 53"
    using assms by (rule less_trans) simp
  then have "fl (rat_of_nat n) = rat_of_nat n"
    by (rule fl_of_nat)
  then show ?thesis
    using True by (simp add: gif_scale_small Math_round_of_nat)
next
  case False
  then have big: "480 < n" by simp
  have "\<bar>fl (rat_of_nat n * gif_scale n) - of_nat n * 480 / of_nat n\<bar> \<le> 1 / 2 ^ 21"
    using big assms assms by (rule scaled_large)
  then have "\<bar>fl (rat_of_nat n * gif_scale n) - 480\<bar> \<le> 1 / 2097152"
    using big by simp
  then have "480 - 1 / 2 \<le> fl (rat_of_nat n * gif_scale n)"
    and "fl (rat_of_nat n * gif_scale n) < 480 + 1 / 2"
    by linarith+
  then have "Math_round (fl (rat_of_nat n * gif_scale n)) = 480"
    by (intro Math_round_eqI) simp_all
  then show ?thesis
    using big by simp
qed

lemma scaled_height_small:
  assumes "n \<le> 480" "h < 2 ^ 53"
  shows "nat (Math_round (fl (rat_of_nat h * gif_scale n))) = h"
  using fl_of_nat [OF assms(2)] by (simp add: gif_scale_small [OF assms(1)] Math_round_of_nat)

lemma scaled_height_large:
  assumes "480 < n" "n < 2 ^ 32" "h < 2 ^ 32"
  shows "\<bar>rat_of_nat (nat (Math_round (fl (rat_of_nat h * gif_scale n)))) - of_nat h * 480 / of_nat n\<bar>
           \<le> 1 / 2 + 1 / 2 ^ 21"
proof -
  let ?y = "fl (rat_of_nat h * gif_scale n)"
  have "0 \<le> rat_of_nat h * gif_scale n"
    using gif_scale_large(3) [OF assms(1)] by simp
  then have y: "0 \<le> ?y"
    by (rule fl_nonneg)
  have r: "of_int (Math_round ?y) \<le> ?y + 1 / 2" "?y - 1 / 2 < of_int (Math_round ?y)"
    unfolding Math_round_def by linarith+
  have "0 \<le> Math_round ?y"
    using y by (simp add: Math_round_def)
  then have "rat_of_nat (nat (Math_round ?y)) = of_int (Math_round ?y)"
    by simp
  then show ?thesis
    using r scaled_large [OF assms] by (simp only: abs_le_iff) linarith
qed

lemma gif_scale_jsnum: "Math_min (Num 1) (js_div maxW (of_nat srcW)) = Num (gif_scale srcW)"
proof (cases "srcW = 0")
  case True
  then show ?thesis by (simp add: gif_scale_def maxW_def)
next
  case False
  then have "1 \<le> rat_of_nat srcW" by simp
  then have "\<bar>480 / rat_of_nat srcW\<bar> < 2 ^ 9"
    using False by (simp add: field_simps)
  then have "js_num (480 / rat_of_nat srcW) = Num (fl (480 / rat_of_nat srcW))"
    by (rule js_num_Num) simp
  then show ?thesis
    using False by (simp add: gif_scale_def maxW_def)
qed

lemma gif_scale_range:
  assumes "n < 2 ^ 32"
  shows "0 < gif_scale n \<and> gif_scale n \<le> 1"
proof (cases "n \<le> 480")
  case True
  then show ?thesis
    by (simp add: gif_scale_small)
next
  case False
  then have big: "480 < n"
    by simp
  note sc = gif_scale_large [OF big]
  have "0 < rat_of_nat n"
    using big by simp
  moreover have "rat_of_nat n < 4294967296"
    using of_nat_less_2p32 [OF assms] by simp
  ultimately have "480 / 4294967296 \<le> 480 / rat_of_nat n"
    by (intro frac_le) simp_all
  moreover have "\<bar>gif_scale n - 480 / rat_of_nat n\<bar> \<le> 1 / 18014398509481984"
    using sc(2) by simp
  ultimately have "0 < gif_scale n"
    by linarith
  then show ?thesis
    using sc(4) by simp
qed

lemma gif_w_eq:
  assumes "width b < 2 ^ 32" "width a < 2 ^ 32"
  shows "gif_w b a = min (max (width b) (width a)) 480"
proof -
  have "max (width b) (width a) < 2 ^ 32"
    using assms by simp
  then show ?thesis
    by (simp add: gif_w_def gif_srcW_def scaled_width)
qed

lemma gif_704_363:
  "gif_w \<lparr>src = [], width = 704, height = 363\<rparr> \<lparr>src = [], width = 704, height = 363\<rparr> = 480"
  "gif_h \<lparr>src = [], width = 704, height = 363\<rparr> \<lparr>src = [], width = 704, height = 363\<rparr> = 247"
proof -
  have gs: "fl (15 / 22) = 6141272219141585 / 9007199254740992"
    by (rule fl_eqI [where e = "- 1" and k = "6141272219141585"]) (simp_all add: emin_def)
  have gpw: "fl (67553994410557435 / 140737488355328) = 8444249301319679 / 17592186044416"
    by (rule fl_eqI [where e = "8" and k = "8444249301319679"]) (simp_all add: emin_def)
  have gph: "fl (2229281815548395355 / 9007199254740992) = 8708132091985919 / 35184372088832"
    by (rule fl_eqI [where e = "7" and k = "8708132091985919"]) (simp_all add: emin_def)
  have grw: "Math_round (8444249301319679 / 17592186044416) = 480"
    by (rule Math_round_eqI) simp_all
  have grh: "Math_round (8708132091985919 / 35184372088832) = 247"
    by (rule Math_round_eqI) simp_all
  show "gif_w \<lparr>src = [], width = 704, height = 363\<rparr> \<lparr>src = [], width = 704, height = 363\<rparr> = 480"
    by (simp add: gif_w_def gif_srcW_def gif_scale_def maxW_def gs gpw grw)
  show "gif_h \<lparr>src = [], width = 704, height = 363\<rparr> \<lparr>src = [], width = 704, height = 363\<rparr> = 247"
    by (simp add: gif_h_def gif_srcW_def gif_srcH_def gif_scale_def maxW_def gs gph grh)
qed

lemma frames_ctx_step: "f < k \<Longrightarrow>
  frames_ctx P b a w h frames f k =
    renderSliderFrame P b a (of_nat w) (of_nat h) (pct (frames ! f)) @ frames_ctx P b a w h frames (Suc f) k"
  by (simp add: frames_ctx_def upt_conv_Cons)

lemma encode_loop_eq:
  assumes "f \<le> length frames"
  shows "encode_loop P b a w h pal frames f (ctx, tr) =
           (ctx @ frames_ctx P b a w h frames f (length frames),
            tr @ concat (map (\<lambda>k. frame_calls P w h pal frames
                                     (ctx @ frames_ctx P b a w h frames f (Suc k)) k)
                          [f ..< length frames]))"
  using assms
proof (induction "length frames - f" arbitrary: f ctx tr)
  case 0
  then have "f = length frames" by simp
  then show ?case
    by (subst encode_loop.simps) (simp add: frames_ctx_def)
next
  case (Suc d)
  then have lt: "f < length frames" by simp
  let ?r = "renderSliderFrame P b a (of_nat w) (of_nat h) (pct (frames ! f))"
  have step1: "encode_loop P b a w h pal frames f (ctx, tr) =
      encode_loop P b a w h pal frames (f + 1)
        (ctx @ ?r, tr @ frame_calls P w h pal frames (ctx @ ?r) f)"
    using lt by (subst encode_loop.simps) (simp add: Let_def frame_calls_def)
  have ih: "encode_loop P b a w h pal frames (f + 1)
        (ctx @ ?r, tr @ frame_calls P w h pal frames (ctx @ ?r) f) =
      ((ctx @ ?r) @ frames_ctx P b a w h frames (f + 1) (length frames),
       (tr @ frame_calls P w h pal frames (ctx @ ?r) f)
        @ concat (map (\<lambda>k. frame_calls P w h pal frames
                                     ((ctx @ ?r) @ frames_ctx P b a w h frames (f + 1) (Suc k)) k)
                          [f + 1 ..< length frames]))"
    using Suc.hyps(1) [of "f + 1"] Suc.hyps(2) lt by simp
  have u: "[f ..< length frames] = f # [f + 1 ..< length frames]"
    using lt by (simp add: upt_conv_Cons)
  have c0: "frames_ctx P b a w h frames f (Suc f) = ?r"
    by (simp add: frames_ctx_def)
  have ck: "\<And>k. k \<in> set [f + 1 ..< length frames] \<Longrightarrow>
      (ctx @ ?r) @ frames_ctx P b a w h frames (f + 1) (Suc k)
        = ctx @ frames_ctx P b a w h frames f (Suc k)"
    by (simp add: frames_ctx_step [of f])
  have m: "map (\<lambda>k. frame_calls P w h pal frames
                                     ((ctx @ ?r) @ frames_ctx P b a w h frames (f + 1) (Suc k)) k)
                          [f + 1 ..< length frames]
      = map (\<lambda>k. frame_calls P w h pal frames
                                     (ctx @ frames_ctx P b a w h frames f (Suc k)) k)
                          [f + 1 ..< length frames]"
    by (rule map_cong) (simp_all only: ck)
  show ?case
    unfolding step1 ih m u
    using lt by (simp add: c0 frames_ctx_step [of f "length frames"])
qed

lemma createSliderGif_eq:
  assumes "0 < gif_w b a" "0 < gif_h b a"
  shows "createSliderGif P b a =
           Inr (Quantize (gif_samples P b a) 256
                # concat (map (gif_frame_calls P b a) [0 ..< length build_frames])
                @ [Finish])"
  using assms
  by (simp add: createSliderGif_def Let_def encode_loop_eq palette_samples_eq
      gif_samples_def gif_ctx0_def gif_palette_def gif_frame_calls_def [abs_def])

lemma createSliderGif_fails:
  "gif_w b a = 0 \<or> gif_h b a = 0 \<Longrightarrow> createSliderGif P b a = Inl IndexSizeError"
  by (auto simp: createSliderGif_def Let_def)

lemma createSliderGif_Inr:
  assumes "createSliderGif P b a = Inr tr"
  shows "tr = Quantize (gif_samples P b a) 256
                # concat (map (gif_frame_calls P b a) [0 ..< length build_frames])
                @ [Finish]"
proof -
  have "0 < gif_w b a \<and> 0 < gif_h b a"
    using assms createSliderGif_fails [of b a P] by (cases "gif_w b a = 0 \<or> gif_h b a = 0") auto
  then show ?thesis
    using assms createSliderGif_eq [of b a P] by simp
qed

lemma filter_concat_map_Nil: "(\<And>x. filter p (f x) = []) \<Longrightarrow> filter p (concat (map f xs)) = []"
  by (induction xs) simp_all

lemma no_Quantize_in_frame: "filter is_Quantize (gif_frame_calls P b a k) = []"
  by (simp add: gif_frame_calls_def frame_calls_def Let_def)

lemma applied_append: "applied_palettes (xs @ ys) = applied_palettes xs @ applied_palettes ys"
  by (simp add: applied_palettes_def)

lemma written_append: "written (xs @ ys) = written xs @ written ys"
  by (simp add: written_def)

lemma applied_frame: "applied_palettes (gif_frame_calls P b a k) = [gif_palette P b a]"
  by (simp add: applied_palettes_def gif_frame_calls_def frame_calls_def Let_def)

lemma written_frame:
  "written (gif_frame_calls P b a k) =
     [(delay (build_frames ! k), if k = 0 then Some (gif_palette P b a) else None)]"
  by (simp add: written_def gif_frame_calls_def frame_calls_def Let_def)

lemma applied_frames:
  "applied_palettes (concat (map (gif_frame_calls P b a) ks)) = replicate (length ks) (gif_palette P b a)"
  by (induction ks) (simp_all add: applied_append applied_frame, simp add: applied_palettes_def)

lemma written_frames:
  "written (concat (map (gif_frame_calls P b a) ks)) =
     map (\<lambda>k. (delay (build_frames ! k), if k = 0 then Some (gif_palette P b a) else None)) ks"
  by (induction ks) (simp_all add: written_append written_frame, simp add: written_def)

lemma applied_trace:
  "applied_palettes (Quantize S n # concat (map (gif_frame_calls P b a) ks) @ [Finish]) =
     replicate (length ks) (gif_palette P b a)"
proof -
  have "applied_palettes ([Quantize S n] @ concat (map (gif_frame_calls P b a) ks) @ [Finish]) =
     replicate (length ks) (gif_palette P b a)"
    unfolding applied_append applied_frames by (simp add: applied_palettes_def)
  then show ?thesis by simp
qed

lemma written_trace:
  "written (Quantize S n # concat (map (gif_frame_calls P b a) ks) @ [Finish]) =
     map (\<lambda>k. (delay (build_frames ! k), if k = 0 then Some (gif_palette P b a) else None)) ks"
proof -
  have "written ([Quantize S n] @ concat (map (gif_frame_calls P b a) ks) @ [Finish]) =
     map (\<lambda>k. (delay (build_frames ! k), if k = 0 then Some (gif_palette P b a) else None)) ks"
    unfolding written_append written_frames by (simp add: written_def)
  then show ?thesis by simp
qed

lemma length_build_frames: "length build_frames = 28"
  by (simp add: build_frames_eq)

lemma hd_trace:
  assumes "createSliderGif P b a = Inr tr"
  shows "hd tr = Quantize (gif_samples P b a) 256"
  using createSliderGif_Inr [OF assms] by simp

lemma small_w: "gif_w \<lparr>src = [], width = 2, height = 2\<rparr> \<lparr>src = [], width = 2, height = 2\<rparr> = 2"
  by (simp add: gif_w_eq)

lemma small_h: "gif_h \<lparr>src = [], width = 2, height = 2\<rparr> \<lparr>src = [], width = 2, height = 2\<rparr> = 2"
  using scaled_height_small [of 2 2] by (simp add: gif_h_def gif_srcH_def gif_srcW_def)

lemma small_samples:
  "gif_samples example_platform \<lparr>src = [], width = 2, height = 2\<rparr> \<lparr>src = [], width = 2, height = 2\<rparr>
     = [0, 0, 0, 255, 0, 0, 0, 255]"
  by (simp add: gif_samples_def small_w small_h every_4th_pixel_def sample_at_def u8_get_def
      example_platform_def)

lemma gif_h_small:
  assumes "gif_srcW b a \<le> 480" "height b < 2 ^ 32" "height a < 2 ^ 32"
  shows "gif_h b a = max (height b) (height a)"
proof -
  have "max (height b) (height a) < 2 ^ 32"
    using assms by simp
  then have "max (height b) (height a) < 2 ^ 53"
    by (rule less_trans) simp
  then show ?thesis
    using assms(1) by (simp add: gif_h_def gif_srcH_def scaled_height_small)
qed

lemma gif_h_large:
  assumes "480 < gif_srcW b a" "width b < 2 ^ 32" "width a < 2 ^ 32"
    "height b < 2 ^ 32" "height a < 2 ^ 32"
  shows "\<bar>rat_of_nat (gif_h b a) - of_nat (gif_srcH b a) * 480 / of_nat (gif_srcW b a)\<bar>
           \<le> 1 / 2 + 1 / 2 ^ 21"
proof -
  have "gif_srcW b a < 2 ^ 32" "gif_srcH b a < 2 ^ 32"
    using assms by (simp_all add: gif_srcW_def gif_srcH_def)
  then show ?thesis
    unfolding gif_h_def using assms(1) by (intro scaled_height_large)
qed

text \<open>
  C2. The specification bounds the larger of the working width and height by 480. The export scales
  by \<open>min(1, 480 / srcW)\<close>, which looks at the width only: the working size is
  \<open>round(srcW * s)\<close> by \<open>round(srcH * s)\<close> with this one factor \<open>s\<close>, computed in
  doubles. For pictures with sides below \<open>2^32\<close> the working width is \<open>min(srcW, 480)\<close>;
  the working height is \<open>srcH\<close> when \<open>srcW \<le> 480\<close> and otherwise within \<open>1/2 + 2^(-21)\<close>
  of \<open>srcH * 480 / srcW\<close>, and it is not bounded (two pictures of 100 by 1000 are worked
  on at 100 by 1000). In an export that completes, \<^verbatim>\<open>quantize\<close> is called
  once, first, with the limit 256 and with the samples of every 4th pixel (by buffer offset,
  alpha replaced by 255) of the canvas after drawing "before" and then of the canvas after
  drawing "after" over it, both at the working size; its result is the palette, which has
  at most 256 colours.
\<close>

theorem gif_working_size_and_palette:
  assumes "width b < 2 ^ 32" "height b < 2 ^ 32" "width a < 2 ^ 32" "height a < 2 ^ 32"
  shows "Math_min (Num 1) (js_div maxW (of_nat (gif_srcW b a))) = Num (gif_scale (gif_srcW b a))
   \<and> 0 < gif_scale (gif_srcW b a) \<and> gif_scale (gif_srcW b a) \<le> 1
   \<and> gif_w b a = nat (Math_round (fl (of_nat (gif_srcW b a) * gif_scale (gif_srcW b a))))
   \<and> gif_h b a = nat (Math_round (fl (of_nat (gif_srcH b a) * gif_scale (gif_srcW b a))))
   \<and> gif_w b a = min (max (width b) (width a)) 480
   \<and> (gif_srcW b a \<le> 480 \<longrightarrow> gif_h b a = max (height b) (height a))
   \<and> (480 < gif_srcW b a \<longrightarrow>
        \<bar>rat_of_nat (gif_h b a) - of_nat (gif_srcH b a) * 480 / of_nat (gif_srcW b a)\<bar>
          \<le> 1 / 2 + 1 / 2 ^ 21)
   \<and> (createSliderGif P b a = Inr tr \<longrightarrow>
        0 < gif_w b a \<and> 0 < gif_h b a
        \<and> hd tr = Quantize (gif_samples P b a) 256
        \<and> filter is_Quantize tr = [Quantize (gif_samples P b a) 256])
   \<and> gif_palette P b a = quantize P (gif_samples P b a) 256
   \<and> length (gif_palette P b a) \<le> 256"
proof -
  have sw: "gif_srcW b a < 2 ^ 32"
    using assms by (simp add: gif_srcW_def)
  have "createSliderGif P b a = Inr tr \<longrightarrow>
        0 < gif_w b a \<and> 0 < gif_h b a
        \<and> hd tr = Quantize (gif_samples P b a) 256
        \<and> filter is_Quantize tr = [Quantize (gif_samples P b a) 256]"
  proof
    assume r: "createSliderGif P b a = Inr tr"
    have "0 < gif_w b a \<and> 0 < gif_h b a"
      using r createSliderGif_fails [of b a P] by (cases "gif_w b a = 0 \<or> gif_h b a = 0") auto
    moreover have "filter is_Quantize tr = [Quantize (gif_samples P b a) 256]"
      unfolding createSliderGif_Inr [OF r]
      by (simp add: filter_concat_map_Nil no_Quantize_in_frame)
    ultimately show "0 < gif_w b a \<and> 0 < gif_h b a
        \<and> hd tr = Quantize (gif_samples P b a) 256
        \<and> filter is_Quantize tr = [Quantize (gif_samples P b a) 256]"
      using hd_trace [OF r] by simp
  qed
  moreover have "length (gif_palette P b a) \<le> 256"
    by (simp add: gif_palette_def quantize_def)
  moreover have "gif_srcW b a \<le> 480 \<longrightarrow> gif_h b a = max (height b) (height a)"
    using gif_h_small [of b a] assms by simp
  moreover have "480 < gif_srcW b a \<longrightarrow>
        \<bar>rat_of_nat (gif_h b a) - of_nat (gif_srcH b a) * 480 / of_nat (gif_srcW b a)\<bar>
          \<le> 1 / 2 + 1 / 2 ^ 21"
    using gif_h_large [of b a] assms by simp
  moreover note gif_scale_jsnum [of "gif_srcW b a"] gif_w_def [of b a] gif_h_def [of b a]
    gif_w_eq [OF assms(1,3)] gif_palette_def [of P b a]
    gif_scale_range [OF sw, THEN conjunct1]
    gif_scale_range [OF sw, THEN conjunct2]
  ultimately show ?thesis
    by (intro conjI)
qed

theorem gif_working_size_and_palette_witness:
  "gif_w \<lparr>src = [], width = 960, height = 1920\<rparr> \<lparr>src = [], width = 800, height = 600\<rparr> = 480
   \<and> gif_w \<lparr>src = [], width = 704, height = 363\<rparr> \<lparr>src = [], width = 704, height = 363\<rparr> = 480
   \<and> gif_h \<lparr>src = [], width = 704, height = 363\<rparr> \<lparr>src = [], width = 704, height = 363\<rparr> = 247
   \<and> (\<exists>tr. createSliderGif example_platform \<lparr>src = [], width = 2, height = 2\<rparr>
              \<lparr>src = [], width = 2, height = 2\<rparr> = Inr tr
            \<and> hd tr = Quantize [0, 0, 0, 255, 0, 0, 0, 255] 256)
   \<and> length (gif_palette example_platform \<lparr>src = [], width = 2, height = 2\<rparr>
               \<lparr>src = [], width = 2, height = 2\<rparr>) \<le> 256"
proof -
  let ?s = "\<lparr>src = [], width = 2, height = 2\<rparr>"
  let ?b = "\<lparr>src = [], width = 960, height = 1920\<rparr>"
  let ?a = "\<lparr>src = [], width = 800, height = 600\<rparr>"
  let ?c = "\<lparr>src = [], width = 704, height = 363\<rparr>"
  obtain tr where tr: "createSliderGif example_platform ?s ?s = Inr tr"
    using createSliderGif_eq [of ?s ?s example_platform] by (simp add: small_w small_h)
  have big: "gif_w ?b ?a = min (max (width ?b) (width ?a)) 480"
    by (rule gif_working_size_and_palette [of ?b ?a example_platform tr,
          THEN conjunct2, THEN conjunct2, THEN conjunct2, THEN conjunct2,
          THEN conjunct2, THEN conjunct1]) simp_all
  have mid: "gif_w ?c ?c = min (max (width ?c) (width ?c)) 480"
    by (rule gif_working_size_and_palette [of ?c ?c example_platform tr,
          THEN conjunct2, THEN conjunct2, THEN conjunct2, THEN conjunct2,
          THEN conjunct2, THEN conjunct1]) simp_all
  have midh: "gif_h ?c ?c =
      nat (Math_round (fl (of_nat (gif_srcH ?c ?c) * gif_scale (gif_srcW ?c ?c))))"
    by (rule gif_working_size_and_palette [of ?c ?c example_platform tr,
          THEN conjunct2, THEN conjunct2, THEN conjunct2, THEN conjunct2, THEN conjunct1])
      simp_all
  have small: "(createSliderGif example_platform ?s ?s = Inr tr \<longrightarrow>
        0 < gif_w ?s ?s \<and> 0 < gif_h ?s ?s
        \<and> hd tr = Quantize (gif_samples example_platform ?s ?s) 256
        \<and> filter is_Quantize tr = [Quantize (gif_samples example_platform ?s ?s) 256])"
    by (rule gif_working_size_and_palette [of ?s ?s example_platform tr,
          THEN conjunct2, THEN conjunct2, THEN conjunct2, THEN conjunct2,
          THEN conjunct2, THEN conjunct2, THEN conjunct2, THEN conjunct2, THEN conjunct1])
      simp_all
  have l: "length (gif_palette example_platform ?s ?s) \<le> 256"
    by (rule gif_working_size_and_palette [of ?s ?s example_platform tr,
          THEN conjunct2, THEN conjunct2, THEN conjunct2, THEN conjunct2,
          THEN conjunct2, THEN conjunct2, THEN conjunct2, THEN conjunct2, THEN conjunct2,
          THEN conjunct2]) simp_all
  have w: "gif_w ?b ?a = 480"
    using big by simp
  have w2: "gif_w ?c ?c = 480"
    using mid by simp
  have h2: "gif_h ?c ?c = 247"
    using midh by (simp only: gif_704_363(2))
  have h: "hd tr = Quantize [0, 0, 0, 255, 0, 0, 0, 255] 256"
    using small [THEN mp, OF tr] by (simp only: small_samples)
  show ?thesis
    using w w2 h2 h l tr by (intro conjI exI [of _ tr])
qed

theorem gif_height_not_bounded:
  "gif_w \<lparr>src = [], width = 100, height = 1000\<rparr> \<lparr>src = [], width = 100, height = 1000\<rparr> = 100
   \<and> gif_h \<lparr>src = [], width = 100, height = 1000\<rparr> \<lparr>src = [], width = 100, height = 1000\<rparr> = 1000
   \<and> \<not> max (gif_w \<lparr>src = [], width = 100, height = 1000\<rparr> \<lparr>src = [], width = 100, height = 1000\<rparr>)
            (gif_h \<lparr>src = [], width = 100, height = 1000\<rparr> \<lparr>src = [], width = 100, height = 1000\<rparr>)
          \<le> 480"
proof -
  have w: "gif_w \<lparr>src = [], width = 100, height = 1000\<rparr> \<lparr>src = [], width = 100, height = 1000\<rparr> = 100"
    by (simp add: gif_w_eq)
  have h: "gif_h \<lparr>src = [], width = 100, height = 1000\<rparr> \<lparr>src = [], width = 100, height = 1000\<rparr> = 1000"
    using scaled_height_small [of 100 1000] by (simp add: gif_h_def gif_srcH_def gif_srcW_def)
  show ?thesis
    unfolding w h by simp
qed

text \<open>
  C5. In an export that completes, the encoder calls are: one \<^verbatim>\<open>quantize\<close>, first; then
  for the frames \<open>0, \<dots>, 27\<close> in this order one \<^verbatim>\<open>applyPalette\<close> with the palette that
  \<^verbatim>\<open>quantize\<close> returned and one \<^verbatim>\<open>writeFrame\<close> with the frame's delay, which
  carries the palette for frame 0 and no palette for the later frames; then
  \<^verbatim>\<open>finish\<close>.
\<close>

theorem gif_palette_once_frames_in_order:
  assumes "createSliderGif P b a = Inr tr"
  shows "tr = Quantize (gif_samples P b a) 256
              # concat (map (gif_frame_calls P b a) [0 ..< 28]) @ [Finish]
         \<and> filter is_Quantize tr = [Quantize (gif_samples P b a) 256]
         \<and> gif_palette P b a = quantize P (gif_samples P b a) 256
         \<and> applied_palettes tr = replicate 28 (gif_palette P b a)
         \<and> written tr =
             map (\<lambda>k. (delay (build_frames ! k),
                        if k = 0 then Some (gif_palette P b a) else None)) [0 ..< 28]
         \<and> map fst (written tr) = map delay build_frames
         \<and> map snd (written tr) = Some (gif_palette P b a) # replicate 27 None"
proof -
  note tr = createSliderGif_Inr [OF assms, unfolded length_build_frames]
  have q: "filter is_Quantize tr = [Quantize (gif_samples P b a) 256]"
    unfolding tr by (simp add: filter_concat_map_Nil no_Quantize_in_frame)
  have ap: "applied_palettes tr = replicate 28 (gif_palette P b a)"
    unfolding tr applied_trace by simp
  have wr: "written tr =
             map (\<lambda>k. (delay (build_frames ! k),
                        if k = 0 then Some (gif_palette P b a) else None)) [0 ..< 28]"
    unfolding tr written_trace ..
  have f: "map fst (written tr) = map delay build_frames"
    unfolding wr
    by (rule nth_equalityI) (simp_all add: length_build_frames)
  have s: "map snd (written tr) = Some (gif_palette P b a) # replicate 27 None"
    unfolding wr
    by (rule nth_equalityI) (auto simp: nth_Cons')
  show ?thesis
    using tr q ap wr f s by (simp add: gif_palette_def)
qed

theorem gif_palette_once_frames_in_order_witness:
  "\<exists>tr. createSliderGif example_platform \<lparr>src = [], width = 2, height = 2\<rparr>
           \<lparr>src = [], width = 2, height = 2\<rparr> = Inr tr
     \<and> filter is_Quantize tr = [Quantize [0, 0, 0, 255, 0, 0, 0, 255] 256]
     \<and> applied_palettes tr = replicate 28 [[0, 0, 0]]
     \<and> map fst (written tr) = map delay build_frames
     \<and> map snd (written tr) = Some [[0, 0, 0]] # replicate 27 None"
proof -
  let ?s = "\<lparr>src = [], width = 2, height = 2\<rparr>"
  obtain tr where tr: "createSliderGif example_platform ?s ?s = Inr tr"
    using createSliderGif_eq [of ?s ?s example_platform] by (simp add: small_w small_h)
  have pal: "gif_palette example_platform ?s ?s = [[0, 0, 0]]"
    by (simp add: gif_palette_def quantize_def example_platform_def)
  note t = gif_palette_once_frames_in_order [OF tr, unfolded small_samples pal]
  show ?thesis
    using tr t [THEN conjunct2, THEN conjunct1]
      t [THEN conjunct2, THEN conjunct2, THEN conjunct2, THEN conjunct1]
      t [THEN conjunct2, THEN conjunct2, THEN conjunct2, THEN conjunct2, THEN conjunct2,
        THEN conjunct1]
      t [THEN conjunct2, THEN conjunct2, THEN conjunct2, THEN conjunct2, THEN conjunct2,
        THEN conjunct2]
    by (intro conjI exI [of _ tr])
qed

end
